theory Spec2Isabelle
  imports Main "HOL-Library.Char_ord" "HOL-Library.List_Lexorder" "HOL-Library.AList"
    "HOL-Library.Multiset"
begin

section \<open>The packaging script \<^verbatim>\<open>package_github_upload.py\<close>\<close>

text \<open>
  A shallow embedding of the script. Python's \<^verbatim>\<open>str\<close> is a \<^typ>\<open>string\<close> whose characters are
  read as the code points U+0000 to U+00FF; a \<^verbatim>\<open>Path\<close> is the list of its components below
  the root; the file system is an explicit store that every operation receives and returns;
  an exception is a value of \<^verbatim>\<open>exn\<close>. Library functions the script calls (string methods,
  \<^verbatim>\<open>fnmatch\<close>, \<^verbatim>\<open>pathlib\<close>, \<^verbatim>\<open>shutil\<close>) are modelled as CPython 3 on POSIX defines them.
  Symbolic links, permissions and the diagnostic output on stdout and stderr are not
  modelled; the digest, the shell and the archiver are parameters of the environment.
\<close>

subsection \<open>Exceptions\<close>

datatype exn = FileExistsError | FileNotFoundError | NotADirectoryError | IsADirectoryError
  | ValueError | IndexError

subsection \<open>String methods\<close>

text \<open>
  \<^verbatim>\<open>str.splitlines\<close> breaks at every line boundary (a carriage return followed by a line
  feed is one boundary) and yields no empty last line; \<^verbatim>\<open>str.strip\<close> and \<^verbatim>\<open>str.split()\<close>
  use \<^verbatim>\<open>str.isspace\<close>.
\<close>

definition is_linebreak :: "char \<Rightarrow> bool" where
  "is_linebreak c = (c \<in> set [CHR 0x0A, CHR 0x0B, CHR 0x0C, CHR 0x0D, CHR 0x1C, CHR 0x1D, CHR 0x1E, CHR 0x85])"

definition is_space :: "char \<Rightarrow> bool" where
  "is_space c = (c \<in> set [CHR 0x09, CHR 0x0A, CHR 0x0B, CHR 0x0C, CHR 0x0D, CHR 0x1C, CHR 0x1D,
     CHR 0x1E, CHR 0x1F, CHR 0x20, CHR 0x85, CHR 0xA0])"

fun splitlines_from :: "string \<Rightarrow> string \<Rightarrow> string list" where
  "splitlines_from cur [] = (if cur = [] then [] else [cur])"
| "splitlines_from cur (c # cs) =
     (if c = CHR 0x0D \<and> take 1 cs = [CHR 0x0A] then cur # splitlines_from [] (tl cs)
      else if is_linebreak c then cur # splitlines_from [] cs
      else splitlines_from (cur @ [c]) cs)"

definition splitlines :: "string \<Rightarrow> string list" where
  "splitlines s = splitlines_from [] s"

definition strip :: "string \<Rightarrow> string" where
  "strip s = rev (dropWhile is_space (rev (dropWhile is_space s)))"

fun split_ws_from :: "string \<Rightarrow> string \<Rightarrow> string list" where
  "split_ws_from cur [] = (if cur = [] then [] else [cur])"
| "split_ws_from cur (c # cs) =
     (if is_space c then (if cur = [] then split_ws_from [] cs else cur # split_ws_from [] cs)
      else split_ws_from (cur @ [c]) cs)"

definition split_ws :: "string \<Rightarrow> string list" where
  "split_ws s = split_ws_from [] s"

definition startswith :: "string \<Rightarrow> string \<Rightarrow> bool" where
  "startswith s p = (take (length p) s = p)"

fun str_contains :: "string \<Rightarrow> string \<Rightarrow> bool" where
  "str_contains sub [] = (sub = [])"
| "str_contains sub (c # cs) = (startswith (c # cs) sub \<or> str_contains sub cs)"

fun split1_from :: "string \<Rightarrow> string \<Rightarrow> string \<Rightarrow> string list" where
  "split1_from sep pre [] = [pre]"
| "split1_from sep pre (c # cs) =
     (if startswith (c # cs) sep then [pre, drop (length sep) (c # cs)]
      else split1_from sep (pre @ [c]) cs)"

definition split1 :: "string \<Rightarrow> string \<Rightarrow> string list" where
  "split1 sep s = split1_from sep [] s"

fun index0 :: "'a list \<Rightarrow> exn + 'a" where
  "index0 (x # _) = Inr x"
| "index0 [] = Inl IndexError"

fun index1 :: "'a list \<Rightarrow> exn + 'a" where
  "index1 (_ # y # _) = Inr y"
| "index1 _ = Inl IndexError"

text \<open>
  \<^verbatim>\<open>str.encode\<close> to UTF-8 (line 372) on these code points: one byte for a code point below U+0080, and
  the two bytes \<^verbatim>\<open>0xC0 + c div 64\<close>, \<^verbatim>\<open>0x80 + c mod 64\<close> for a code point \<open>c\<close> from U+0080 to U+00FF.
  A byte string is a \<^typ>\<open>string\<close> with one character per byte.
\<close>

definition utf8_bytes :: "char \<Rightarrow> string" where
  "utf8_bytes c =
     (if of_char c < (128 :: nat) then [c]
      else [char_of (192 + of_char c div (64 :: nat)), char_of (128 + of_char c mod (64 :: nat))])"

definition encode_utf8 :: "string \<Rightarrow> string" where
  "encode_utf8 t = concat (map utf8_bytes t)"

subsection \<open>\<^verbatim>\<open>fnmatch.fnmatch\<close>\<close>

text \<open>
  Shell patterns: \<^verbatim>\<open>*\<close> matches any run of characters, \<^verbatim>\<open>?\<close> one character, \<^verbatim>\<open>[seq]\<close> one
  character of the set and \<^verbatim>\<open>[!seq]\<close> one outside it; a \<^verbatim>\<open>[\<close> with no closing bracket stands
  for itself. Inside a set a hyphen between two characters makes a range (an empty range
  contributes nothing), a closing bracket in first place is a member. The whole name has to
  match; on POSIX the match is case-sensitive.
\<close>

fun in_class :: "char \<Rightarrow> string \<Rightarrow> bool" where
  "in_class c (a # b # d # rest) =
     (if b = CHR ''-'' then (a \<le> c \<and> c \<le> d) \<or> in_class c rest
      else c = a \<or> in_class c (b # d # rest))"
| "in_class c (a # rest) = (c = a \<or> in_class c rest)"
| "in_class c [] = False"

definition parse_class :: "string \<Rightarrow> (bool \<times> string \<times> string) option" where
  "parse_class ps =
     (let neg = startswith ps ''!'';
          ps1 = (if neg then drop 1 ps else ps);
          lead = (if startswith ps1 '']'' then '']'' else []);
          ps2 = drop (length lead) ps1;
          body = takeWhile (\<lambda>c. c \<noteq> CHR '']'') ps2;
          after = dropWhile (\<lambda>c. c \<noteq> CHR '']'') ps2
      in if after = [] then None else Some (neg, lead @ body, drop 1 after))"

function glob_match :: "string \<Rightarrow> string \<Rightarrow> bool" where
  "glob_match [] s = (s = [])"
| "glob_match (p # ps) s =
     (if p = CHR ''*'' then
        glob_match ps s \<or> (case s of [] \<Rightarrow> False | _ # s' \<Rightarrow> glob_match (p # ps) s')
      else if p = CHR ''?'' then
        (case s of [] \<Rightarrow> False | _ # s' \<Rightarrow> glob_match ps s')
      else if p = CHR ''['' then
        (case parse_class ps of
           None \<Rightarrow> (case s of [] \<Rightarrow> False | c # s' \<Rightarrow> c = CHR ''['' \<and> glob_match ps s')
         | Some (neg, members, rest) \<Rightarrow>
             (case s of [] \<Rightarrow> False | c # s' \<Rightarrow> (in_class c members \<noteq> neg) \<and> glob_match rest s'))
      else (case s of [] \<Rightarrow> False | c # s' \<Rightarrow> c = p \<and> glob_match ps s'))"
  by pat_completeness auto
termination
proof -
  have drop_le: "length (drop 1 (dropWhile (\<lambda>c. c \<noteq> CHR '']'') zs)) \<le> length zs" for zs :: string
    using length_dropWhile_le[of "\<lambda>c. c \<noteq> CHR '']''" zs] by simp
  have shorter: "length rest \<le> length ps"
    if "parse_class ps = Some (neg, members, rest)" for ps neg members rest
    using that drop_le[of ps] drop_le[of "drop 1 ps"] drop_le[of "drop 1 (drop 1 ps)"]
    by (auto simp: parse_class_def Let_def split: if_splits)
  show ?thesis
    by (relation "measure (\<lambda>(pat, s). 2 * length pat + length s)") (auto dest: shorter)
qed

definition fnmatch :: "string \<Rightarrow> string \<Rightarrow> bool" where
  "fnmatch name pat = glob_match pat name"

subsection \<open>Paths\<close>

text \<open>
  An absolute path is the list of its components, the root the empty list. \<^verbatim>\<open>resolve\<close>
  removes \<^verbatim>\<open>..\<close> components lexically.
\<close>

type_synonym path = "string list"

definition name :: "path \<Rightarrow> string" where
  "name p = (if p = [] then [] else last p)"

definition parent :: "path \<Rightarrow> path" where
  "parent p = butlast p"

definition as_posix :: "path \<Rightarrow> string" where
  "as_posix p = (if p = [] then ''/'' else concat (map (\<lambda>c. CHR ''/'' # c) p))"

fun join_with :: "string \<Rightarrow> string list \<Rightarrow> string" where
  "join_with sep [] = []"
| "join_with sep [x] = x"
| "join_with sep (x # y # ys) = x @ sep @ join_with sep (y # ys)"

definition rel_posix :: "path \<Rightarrow> string" where
  "rel_posix r = (if r = [] then ''.'' else join_with ''/'' r)"

fun split_char_from :: "char \<Rightarrow> string \<Rightarrow> string \<Rightarrow> string list" where
  "split_char_from sep cur [] = [cur]"
| "split_char_from sep cur (c # cs) =
     (if c = sep then cur # split_char_from sep [] cs else split_char_from sep (cur @ [c]) cs)"

definition path_parts :: "string \<Rightarrow> string list" where
  "path_parts s = filter (\<lambda>c. c \<noteq> [] \<and> c \<noteq> ''.'') (split_char_from (CHR ''/'') [] s)"

definition joinpath :: "path \<Rightarrow> string \<Rightarrow> path" where
  "joinpath p s = (if startswith s ''/'' then path_parts s else p @ path_parts s)"

definition resolve :: "path \<Rightarrow> path" where
  "resolve p = foldl (\<lambda>acc c. if c = ''..'' then butlast acc else acc @ [c]) [] p"

definition relative_to :: "path \<Rightarrow> path \<Rightarrow> path option" where
  "relative_to p root = (if take (length root) p = root then Some (drop (length root) p) else None)"

definition expanduser :: "path \<Rightarrow> string \<Rightarrow> string" where
  "expanduser home_dir s =
     (if s = ''~'' \<or> startswith s ''~/'' then as_posix home_dir @ drop 1 s else s)"

subsection \<open>The file system\<close>

text \<open>
  The store lists every directory and regular file with its path; the order of the list
  stands for the order in which the operating system enumerates entries, which the script
  does not control. The root always exists. Each operation fails as the system call does,
  leaving the store as it was. A regular file holds a string: its bytes where the script
  takes its size or digest or copies it, its text where the script writes or reads text.
\<close>

datatype node = File string | Dir

type_synonym fs = "(path \<times> node) list"

definition node_at :: "fs \<Rightarrow> path \<Rightarrow> node option" where
  "node_at s p = (if p = [] then Some Dir else map_of s p)"

definition p_exists :: "fs \<Rightarrow> path \<Rightarrow> bool" where
  "p_exists s p = (node_at s p \<noteq> None)"

definition is_dir :: "fs \<Rightarrow> path \<Rightarrow> bool" where
  "is_dir s p = (node_at s p = Some Dir)"

definition is_file :: "fs \<Rightarrow> path \<Rightarrow> bool" where
  "is_file s p = (case node_at s p of Some (File _) \<Rightarrow> True | _ \<Rightarrow> False)"

definition children :: "fs \<Rightarrow> path \<Rightarrow> path list" where
  "children s d = filter (\<lambda>p. p \<noteq> [] \<and> butlast p = d) (map fst s)"

definition under :: "path \<Rightarrow> path \<Rightarrow> bool" where
  "under d p = (length d < length p \<and> take (length d) p = d)"

definition iterdir :: "fs \<Rightarrow> path \<Rightarrow> exn + path list" where
  "iterdir s d =
     (case node_at s d of
        None \<Rightarrow> Inl FileNotFoundError
      | Some (File _) \<Rightarrow> Inl NotADirectoryError
      | Some Dir \<Rightarrow> Inr (children s d))"

definition glob :: "fs \<Rightarrow> path \<Rightarrow> string \<Rightarrow> path list" where
  "glob s d pat = (if is_dir s d then filter (\<lambda>p. fnmatch (name p) pat) (children s d) else [])"

definition rglob :: "fs \<Rightarrow> path \<Rightarrow> string \<Rightarrow> path list" where
  "rglob s d pat =
     (if is_dir s d then filter (\<lambda>p. under d p \<and> fnmatch (name p) pat) (map fst s) else [])"

definition read_file :: "fs \<Rightarrow> path \<Rightarrow> exn + string" where
  "read_file s p =
     (case node_at s p of
        None \<Rightarrow> Inl FileNotFoundError
      | Some Dir \<Rightarrow> Inl IsADirectoryError
      | Some (File data) \<Rightarrow> Inr data)"

definition write_file :: "fs \<Rightarrow> path \<Rightarrow> string \<Rightarrow> exn + fs" where
  "write_file s p data =
     (if is_dir s p then Inl IsADirectoryError
      else if \<not> is_dir s (parent p) then
        Inl (if p_exists s (parent p) then NotADirectoryError else FileNotFoundError)
      else Inr (AList.update p (File data) s))"

definition unlink :: "fs \<Rightarrow> path \<Rightarrow> exn + fs" where
  "unlink s p =
     (case node_at s p of
        None \<Rightarrow> Inl FileNotFoundError
      | Some Dir \<Rightarrow> Inl IsADirectoryError
      | Some (File _) \<Rightarrow> Inr (filter (\<lambda>(q, n). q \<noteq> p) s))"

definition ancestors_and_self :: "path \<Rightarrow> path list" where
  "ancestors_and_self p = map (\<lambda>n. take n p) [1..<Suc (length p)]"

definition mkdir_parents :: "fs \<Rightarrow> path \<Rightarrow> exn + fs" where
  "mkdir_parents s p =
     (case filter (is_file s) (ancestors_and_self p) of
        q # _ \<Rightarrow> Inl (if q = p then FileExistsError else NotADirectoryError)
      | [] \<Rightarrow> Inr (s @ map (\<lambda>q. (q, Dir)) (filter (\<lambda>q. \<not> p_exists s q) (ancestors_and_self p))))"

definition rmtree :: "fs \<Rightarrow> path \<Rightarrow> exn + fs" where
  "rmtree s p =
     (case node_at s p of
        None \<Rightarrow> Inl FileNotFoundError
      | Some (File _) \<Rightarrow> Inl NotADirectoryError
      | Some Dir \<Rightarrow> Inr (filter (\<lambda>(q, n). take (length p) q \<noteq> p) s))"

definition copy2 :: "fs \<Rightarrow> path \<Rightarrow> path \<Rightarrow> exn + fs" where
  "copy2 s src_p dst_p =
     (case read_file s src_p of
        Inl e \<Rightarrow> Inl e
      | Inr data \<Rightarrow> write_file s (if is_dir s dst_p then dst_p @ [name src_p] else dst_p) data)"

datatype 'a result = Ok 'a fs | Fail exn fs

definition bind :: "'a result \<Rightarrow> ('a \<Rightarrow> fs \<Rightarrow> 'b result) \<Rightarrow> 'b result" where
  "bind r f = (case r of Fail e s \<Rightarrow> Fail e s | Ok x s \<Rightarrow> f x s)"

definition lift :: "fs \<Rightarrow> exn + fs \<Rightarrow> unit result" where
  "lift s r = (case r of Inl e \<Rightarrow> Fail e s | Inr s' \<Rightarrow> Ok () s')"

subsection \<open>The environment\<close>

text \<open>
  What the script takes from outside: the home and working directories, the SHA-256
  digest (as a hexadecimal string), the shell (\<^verbatim>\<open>subprocess.run\<close> gives the combined output,
  or raises with a message) and the archiver.
\<close>

record env =
  home :: path
  cwd :: path
  sha256_hex :: "string \<Rightarrow> string"
  run_bash :: "string list \<Rightarrow> fs \<Rightarrow> string + string"
  archive_bytes :: "string \<Rightarrow> fs \<Rightarrow> path \<Rightarrow> string"

definition resolve_arg :: "('a env_scheme) \<Rightarrow> string \<Rightarrow> path" where
  "resolve_arg E s = resolve (joinpath (cwd E) (expanduser (home E) s))"

subsection \<open>Configuration and the copy record\<close>

record CopiedFile =
  src :: path
  dst :: path
  size_b :: nat
  sha256 :: string

definition INCLUDE_PATTERNS :: "string list" where
  "INCLUDE_PATTERNS = [''*.yaml'', ''*.input.yaml'', ''*.updated.yaml'', ''*.paramnames'', ''*.covmat'',
     ''*.progress'', ''*.checkpoint'', ''*.txt'', ''*.A.txt'', ''*.B.txt'']"

definition EXCLUDE_PATTERNS :: "string list" where
  "EXCLUDE_PATTERNS = [''*.log'', ''*.tmp'', ''*.bak'', ''*.npy'', ''*.npz'', ''*.pkl'', ''*.pickle'',
     ''*.hdf5'', ''*.h5'', ''*.dat'', ''*.fits'', ''*.pdf'', ''*.png'', ''*.jpg'', ''*.jpeg'', ''*.gif'',
     ''__pycache__/*'', ''.ipynb_checkpoints/*'']"

definition EXPLICIT_FILES :: "string list" where
  "EXPLICIT_FILES = [''~/.bash_aliases'', ''~/paper_plots/generate_fig4_fig5_from_chains.py'']"

subsection \<open>Pattern matcher, collector and manifest\<close>

text \<open>
  \<^verbatim>\<open>copy_run_dir\<close> reads its pattern lists from the module's constants;
  \<open>copy_run_dir_with\<close> is the same function with the two lists as arguments, and
  \<open>copy_run_files\<close> is its loop over the files that \<^verbatim>\<open>iter_run_files\<close> yields. The files are
  listed when the loop starts. In the script: \<^verbatim>\<open>matches_any\<close> lines 102-111, \<^verbatim>\<open>ensure_empty_dir\<close>
  114-119, \<^verbatim>\<open>copy_file\<close> 122-127, \<^verbatim>\<open>iter_run_files\<close> 130-133, \<^verbatim>\<open>copy_run_dir\<close> 153-163 and
  \<^verbatim>\<open>write_manifest\<close> 166-177; \<open>manifest_lines\<close> is the loop of lines 174-176 and \<open>show_nat\<close> the
  decimal form of a size.
\<close>

definition matches_any :: "path \<Rightarrow> string list \<Rightarrow> bool" where
  "matches_any p patterns =
     (list_ex (\<lambda>pat. fnmatch (name p) pat) patterns \<or> list_ex (\<lambda>pat. fnmatch (as_posix p) pat) patterns)"

definition ensure_empty_dir :: "path \<Rightarrow> bool \<Rightarrow> fs \<Rightarrow> unit result" where
  "ensure_empty_dir p force_flag s =
     (if p_exists s p then
        (if \<not> force_flag then Fail FileExistsError s
         else bind (lift s (rmtree s p)) (\<lambda>_ s1. lift s1 (mkdir_parents s1 p)))
      else lift s (mkdir_parents s p))"

definition copy_file :: "('a env_scheme) \<Rightarrow> path \<Rightarrow> path \<Rightarrow> fs \<Rightarrow> CopiedFile result" where
  "copy_file E src_p dst_p s =
     bind (lift s (mkdir_parents s (parent dst_p))) (\<lambda>_ s1.
     bind (lift s1 (copy2 s1 src_p dst_p)) (\<lambda>_ s2.
       case read_file s2 dst_p of
         Inl e \<Rightarrow> Fail e s2
       | Inr data \<Rightarrow>
           Ok \<lparr>src = src_p, dst = dst_p, size_b = length data, sha256 = sha256_hex E data\<rparr> s2))"

definition iter_run_files :: "fs \<Rightarrow> path \<Rightarrow> path list" where
  "iter_run_files s run_dir = filter (is_file s) (rglob s run_dir ''*'')"

fun copy_run_files ::
  "('a env_scheme) \<Rightarrow> string list \<Rightarrow> string list \<Rightarrow> path \<Rightarrow> path \<Rightarrow> path list \<Rightarrow>
     CopiedFile list \<Rightarrow> fs \<Rightarrow> CopiedFile list result" where
  "copy_run_files E inc exc run_dir dst_run_dir [] copied s = Ok copied s"
| "copy_run_files E inc exc run_dir dst_run_dir (f # fs) copied s =
     (if matches_any f exc then copy_run_files E inc exc run_dir dst_run_dir fs copied s
      else if matches_any f inc then
        (case relative_to f run_dir of
           None \<Rightarrow> Fail ValueError s
         | Some rel \<Rightarrow>
             bind (copy_file E f (dst_run_dir @ rel) s)
               (\<lambda>c s'. copy_run_files E inc exc run_dir dst_run_dir fs (copied @ [c]) s'))
      else copy_run_files E inc exc run_dir dst_run_dir fs copied s)"

definition copy_run_dir_with ::
  "('a env_scheme) \<Rightarrow> string list \<Rightarrow> string list \<Rightarrow> path \<Rightarrow> path \<Rightarrow> CopiedFile list \<Rightarrow> fs \<Rightarrow>
     CopiedFile list result" where
  "copy_run_dir_with E inc exc run_dir staging_root copied s =
     (let dst_run_dir = joinpath staging_root (name run_dir) in
      bind (lift s (mkdir_parents s dst_run_dir))
        (\<lambda>_ s1. copy_run_files E inc exc run_dir dst_run_dir (iter_run_files s1 run_dir) copied s1))"

definition copy_run_dir ::
  "('a env_scheme) \<Rightarrow> path \<Rightarrow> path \<Rightarrow> CopiedFile list \<Rightarrow> fs \<Rightarrow> CopiedFile list result" where
  "copy_run_dir E = copy_run_dir_with E INCLUDE_PATTERNS EXCLUDE_PATTERNS"

fun show_nat :: "nat \<Rightarrow> string" where
  "show_nat n =
     (if n < 10 then [char_of (48 + n)] else show_nat (n div 10) @ [char_of (48 + n mod 10)])"

declare show_nat.simps [simp del]

fun manifest_lines :: "path \<Rightarrow> CopiedFile list \<Rightarrow> exn + string list" where
  "manifest_lines staging_root [] = Inr []"
| "manifest_lines staging_root (c # cs) =
     (case relative_to (dst c) staging_root of
        None \<Rightarrow> Inl ValueError
      | Some rel \<Rightarrow>
          (case manifest_lines staging_root cs of
             Inl e \<Rightarrow> Inl e
           | Inr ls \<Rightarrow> Inr ((sha256 c @ ''  '' @ show_nat (size_b c) @ ''  '' @ rel_posix rel) # ls)))"

definition manifest_text :: "path \<Rightarrow> CopiedFile list \<Rightarrow> exn + string" where
  "manifest_text staging_root copied =
     (case manifest_lines staging_root (sort_key (\<lambda>x. as_posix (dst x)) copied) of
        Inl e \<Rightarrow> Inl e
      | Inr ls \<Rightarrow>
          Inr (join_with [CHR 0x0A]
                 ([''Total files: '' @ show_nat (length copied),
                   ''Total bytes: '' @ show_nat (sum_list (map size_b copied)),
                   '''',
                   ''sha256  bytes  path''] @ ls) @ [CHR 0x0A]))"

definition write_manifest :: "path \<Rightarrow> CopiedFile list \<Rightarrow> fs \<Rightarrow> unit result" where
  "write_manifest staging_root copied s =
     (case manifest_text staging_root copied of
        Inl e \<Rightarrow> Fail e s
      | Inr txt \<Rightarrow> lift s (write_file s (staging_root @ [''MANIFEST.txt'']) txt))"

subsection \<open>Auto-detection of run directories\<close>

text \<open>
  \<^verbatim>\<open>detect_run_dirs\<close>, lines 136-150; \<open>is_run_dir\<close> is the test the loop makes of one entry of
  the base directory.
\<close>

definition has_chain :: "path list \<Rightarrow> bool" where
  "has_chain txts =
     (list_ex (\<lambda>t. str_contains ''.1.txt'' (name t) \<or> str_contains ''.2.txt'' (name t) \<or>
                   str_contains ''.3.txt'' (name t) \<or> str_contains ''.4.txt'' (name t)) txts
      \<or> length txts > 0)"

definition is_run_dir :: "fs \<Rightarrow> path \<Rightarrow> bool" where
  "is_run_dir s d =
     (is_dir s d \<and>
      (let yamls = glob s d ''*.yaml''; txts = glob s d ''*.txt'';
           has_yaml = length yamls > 0
       in has_yaml \<and> has_chain txts))"

definition detect_run_dirs :: "fs \<Rightarrow> path \<Rightarrow> exn + path list" where
  "detect_run_dirs s base_p =
     (case iterdir s base_p of
        Inl e \<Rightarrow> Inl e
      | Inr ds \<Rightarrow> Inr (sort (filter (is_run_dir s) ds)))"

subsection \<open>Environment snapshot\<close>

text \<open>
  \<open>scan_line\<close> is the body of the loop of \<^verbatim>\<open>_extract_packages_path_from_grep\<close> for one line:
  \<open>Some v\<close> when the loop returns \<open>v\<close> at that line, \<open>None\<close> when it goes on to the next.
  Names that start with an underscore in the script are written without it. In the script:
  \<^verbatim>\<open>bash_in_venv\<close> lines 237-244, \<^verbatim>\<open>run_bash_to_file\<close> 247-263,
  \<^verbatim>\<open>_extract_packages_path_from_grep\<close> 272-294, \<^verbatim>\<open>_find_class_dir\<close> 297-330 (its two loops are
  \<open>first_class_candidate\<close> and \<open>first_main_dir\<close>), \<^verbatim>\<open>_write_class_fingerprint\<close> 343-375 (its
  loop is \<open>candidate_lines\<close>, the encoded listing of its fallback \<open>fallback_blob\<close>) and \<^verbatim>\<open>capture_env_snapshot\<close>
  378-566, of which \<open>probe_packages_path\<close> is lines 479-566 and \<open>probe_class_dir\<close> lines
  503-546; \<open>run_all\<close> and \<open>write_all\<close> run a sequence of commands or writes in order, and
  \<open>truthy\<close> is Python's truth value of an optional string or list.
\<close>

definition is_quoted :: "string \<Rightarrow> bool" where
  "is_quoted tail =
     ((startswith tail [CHR 0x27] \<and> str_contains [CHR 0x27] (drop 1 tail)) \<or>
      (startswith tail [CHR 0x22] \<and> str_contains [CHR 0x22] (drop 1 tail)))"

definition scan_line :: "string \<Rightarrow> exn + string option" where
  "scan_line line =
     (if \<not> str_contains ''packages_path'' line then Inr None
      else case index1 (split1 ''packages_path'' line) of
        Inl e \<Rightarrow> Inl e
      | Inr parts \<Rightarrow>
          if str_contains '':'' parts then
            (case index1 (split1 '':'' parts) of
               Inl e \<Rightarrow> Inl e
             | Inr t \<Rightarrow>
                 (let tail = strip t in
                  case (if is_quoted tail then index0 (split1 (take 1 tail) (drop 1 tail))
                        else if tail \<noteq> [] then index0 (split_ws tail) else Inr [])
                  of Inl e \<Rightarrow> Inl e
                   | Inr tail' \<Rightarrow> if tail' \<noteq> [] then Inr (Some tail') else Inr None))
          else Inr None)"

fun scan_lines :: "string list \<Rightarrow> exn + string option" where
  "scan_lines [] = Inr None"
| "scan_lines (l # ls) =
     (case scan_line l of
        Inl e \<Rightarrow> Inl e
      | Inr (Some v) \<Rightarrow> Inr (Some v)
      | Inr None \<Rightarrow> scan_lines ls)"

definition extract_packages_path_from_grep :: "string \<Rightarrow> exn + string option" where
  "extract_packages_path_from_grep grep_text = scan_lines (splitlines grep_text)"

definition dq :: string where "dq = [CHR 0x22]"
definition sq :: string where "sq = [CHR 0x27]"
definition bsl :: string where "bsl = [CHR 0x5C]"
definition nl :: string where "nl = [CHR 0x0A]"

definition class_dir_candidates :: "path \<Rightarrow> path list" where
  "class_dir_candidates packages_path =
     [packages_path @ [''code'', ''class_public''],
      packages_path @ [''code'', ''CLASS''],
      packages_path @ [''code'', ''class''],
      packages_path @ [''code'', ''classy''],
      packages_path @ [''class_public''],
      packages_path @ [''CLASS''],
      packages_path @ [''classy'']]"

fun first_class_candidate :: "fs \<Rightarrow> path list \<Rightarrow> path option" where
  "first_class_candidate s [] = None"
| "first_class_candidate s (c # cs) =
     (if p_exists s c \<and> is_dir s c then
        (if p_exists s (c @ [''main'', ''class.c'']) \<or> p_exists s (c @ [''include'', ''class.h''])
         then Some c
         else Some c)
      else first_class_candidate s cs)"

fun first_main_dir :: "fs \<Rightarrow> path list \<Rightarrow> path option" where
  "first_main_dir s [] = None"
| "first_main_dir s (p # ps) =
     (if is_dir s p \<and> p_exists s (p @ [''class.c'']) then Some (parent p) else first_main_dir s ps)"

definition find_class_dir :: "fs \<Rightarrow> path \<Rightarrow> path option" where
  "find_class_dir s packages_path =
     (if \<not> p_exists s packages_path then None
      else case first_class_candidate s (class_dir_candidates packages_path) of
        Some c \<Rightarrow> Some c
      | None \<Rightarrow> first_main_dir s (rglob s packages_path ''main''))"

definition fingerprint_candidates :: "string list" where
  "fingerprint_candidates =
     [''main/class.c'', ''include/common.h'', ''include/background.h'', ''source/background.c'',
      ''Makefile'', ''python/setup.py'', ''pyproject.toml'', ''setup.py'']"

fun candidate_lines :: "('a env_scheme) \<Rightarrow> fs \<Rightarrow> path \<Rightarrow> string list \<Rightarrow> string list" where
  "candidate_lines E s class_dir [] = []"
| "candidate_lines E s class_dir (rel # rels) =
     (case node_at s (joinpath class_dir rel) of
        Some (File data) \<Rightarrow>
          (sha256_hex E data @ ''  '' @ show_nat (length data) @ ''  '' @ rel)
            # candidate_lines E s class_dir rels
      | _ \<Rightarrow> candidate_lines E s class_dir rels)"

fun relative_all :: "path \<Rightarrow> path list \<Rightarrow> exn + string list" where
  "relative_all root [] = Inr []"
| "relative_all root (x # xs) =
     (case relative_to x root of
        None \<Rightarrow> Inl ValueError
      | Some r \<Rightarrow> (case relative_all root xs of Inl e \<Rightarrow> Inl e | Inr rs \<Rightarrow> Inr (rel_posix r # rs)))"

definition fallback_blob :: "fs \<Rightarrow> path \<Rightarrow> exn + string" where
  "fallback_blob s class_dir =
     (case relative_all class_dir (filter (is_file s) (rglob s class_dir ''*'')) of
        Inl e \<Rightarrow> Inl e
      | Inr names \<Rightarrow> Inr (encode_utf8 (join_with nl (sort names) @ nl)))"

definition fingerprint_body :: "('a env_scheme) \<Rightarrow> fs \<Rightarrow> path \<Rightarrow> exn + string list" where
  "fingerprint_body E s class_dir =
     (let found = candidate_lines E s class_dir fingerprint_candidates in
      if found \<noteq> [] then Inr found
      else case fallback_blob s class_dir of
        Inl e \<Rightarrow> Inl e
      | Inr blob \<Rightarrow>
          Inr [sha256_hex E blob @ ''  '' @ show_nat (length blob) @ ''  __file_list_fallback__''])"

definition fingerprint_text :: "('a env_scheme) \<Rightarrow> fs \<Rightarrow> path \<Rightarrow> exn + string" where
  "fingerprint_text E s class_dir =
     (case fingerprint_body E s class_dir of
        Inl e \<Rightarrow> Inl e
      | Inr body \<Rightarrow>
          Inr (join_with nl ([''class_dir: '' @ as_posix class_dir, ''sha256  bytes  relpath''] @ body) @ nl))"

definition write_class_fingerprint :: "('a env_scheme) \<Rightarrow> path \<Rightarrow> path \<Rightarrow> fs \<Rightarrow> unit result" where
  "write_class_fingerprint E class_dir out_file s =
     (case fingerprint_text E s class_dir of
        Inl e \<Rightarrow> Fail e s
      | Inr txt \<Rightarrow> lift s (write_file s out_file txt))"

definition truthy :: "'a list option \<Rightarrow> bool" where
  "truthy x = (case x of None \<Rightarrow> False | Some v \<Rightarrow> v \<noteq> [])"

definition or_empty :: "'a list option \<Rightarrow> 'a list" where
  "or_empty x = (case x of None \<Rightarrow> [] | Some v \<Rightarrow> v)"

definition bash_in_venv :: "('a env_scheme) \<Rightarrow> string \<Rightarrow> string option \<Rightarrow> string list" where
  "bash_in_venv E cmd venv =
     (case venv of
        Some v \<Rightarrow>
          (if v \<noteq> [] then [''bash'', ''-lc'', ''source '' @ sq @ expanduser (home E) v @ sq @ ''; '' @ cmd]
           else [''bash'', ''-lc'', cmd])
      | None \<Rightarrow> [''bash'', ''-lc'', cmd])"

definition run_bash_to_file ::
  "('a env_scheme) \<Rightarrow> string \<Rightarrow> path \<Rightarrow> string option \<Rightarrow> fs \<Rightarrow> unit result" where
  "run_bash_to_file E cmd out_path venv s =
     bind (lift s (mkdir_parents s (parent out_path))) (\<lambda>_ s1.
       lift s1 (write_file s1 out_path
         (case run_bash E (bash_in_venv E cmd venv) s1 of
            Inr output \<Rightarrow> (if output \<noteq> [] then output else ''(no output)'' @ nl)
          | Inl msg \<Rightarrow> ''ERROR running command:'' @ nl @ cmd @ nl @ nl @ msg @ nl)))"

fun run_all ::
  "('a env_scheme) \<Rightarrow> path \<Rightarrow> string option \<Rightarrow> (string \<times> string) list \<Rightarrow> fs \<Rightarrow> unit result" where
  "run_all E env_dir venv [] s = Ok () s"
| "run_all E env_dir venv ((cmd, file) # rest) s =
     bind (run_bash_to_file E cmd (env_dir @ [file]) venv s) (\<lambda>_ s'. run_all E env_dir venv rest s')"

fun write_all :: "path \<Rightarrow> (string \<times> string) list \<Rightarrow> fs \<Rightarrow> unit result" where
  "write_all env_dir [] s = Ok () s"
| "write_all env_dir ((file, txt) # rest) s =
     bind (lift s (write_file s (env_dir @ [file]) txt)) (\<lambda>_ s'. write_all env_dir rest s')"

definition basic_probes :: "(string \<times> string) list" where
  "basic_probes =
     [(''python -V'', ''python_version.txt''),
      (''which python'', ''python_path.txt''),
      (''python -c '' @ dq @ ''import sys; print(sys.executable)'' @ dq, ''python_executable.txt''),
      (''uname -a'', ''uname.txt''),
      (''python -c '' @ dq @ ''import platform; print(platform.platform())'' @ dq, ''platform.txt''),
      (''python -m pip -V'', ''pip_version.txt''),
      (''python -m pip freeze'', ''pip-freeze.txt''),
      (''python -m pip show cobaya 2>/dev/null || true'', ''pip-show-cobaya.txt''),
      (''python -c '' @ dq @ ''import cobaya; print('' @ sq @ ''cobaya'' @ sq @
         '', cobaya.__version__); print('' @ sq @ ''cobaya_file'' @ sq @ '', cobaya.__file__)'' @ dq,
       ''cobaya_version.txt''),
      (''python -c '' @ dq @ ''import shutil; print('' @ sq @ ''cobaya_cli'' @ sq @ '', shutil.which('' @
         sq @ ''cobaya'' @ sq @ ''))'' @ dq,
       ''cobaya_cli.txt''),
      (''python -c '' @ dq @ ''import importlib.util as u; print('' @ sq @ ''classy_found'' @ sq @
         '', u.find_spec('' @ sq @ ''classy'' @ sq @ '') is not None)'' @ dq,
       ''classy_present.txt''),
      (''python -c '' @ dq @ ''from pathlib import Path; '' @ bsl @ nl @ ''c=[Path('' @ sq @
         ''~/.cobaya/config.yaml'' @ sq @ '').expanduser(), Path('' @ sq @ ''~/.config/cobaya/config.yaml'' @
         sq @ '').expanduser()]; '' @ bsl @ nl @ ''print('' @ sq @ ''config_candidates:'' @ sq @ ''); '' @
         bsl @ nl @ ''[print(str(p), '' @ sq @ ''exists='' @ sq @ ''+str(p.exists())) for p in c]'' @ dq @ '' '',
       ''cobaya_config_candidates.txt'')]"

definition probe_class_dir ::
  "('a env_scheme) \<Rightarrow> path \<Rightarrow> string option \<Rightarrow> path \<Rightarrow> fs \<Rightarrow> unit result" where
  "probe_class_dir E env_dir venv packages_path s =
     bind (run_bash_to_file E (''ls -la '' @ sq @ as_posix packages_path @ sq)
             (env_dir @ [''packages_path_ls.txt'']) venv s) (\<lambda>_ s1.
     (let class_dir = find_class_dir s1 packages_path;
          found = (case class_dir of Some c \<Rightarrow> p_exists s1 c | None \<Rightarrow> False)
      in
      bind (lift s1 (write_file s1 (env_dir @ [''class_dir_found.txt''])
              ((case class_dir of
                  Some c \<Rightarrow> (if found then as_posix c else ''(CLASS dir not found under packages_path)'')
                | None \<Rightarrow> ''(CLASS dir not found under packages_path)'') @ nl))) (\<lambda>_ s2.
      (case class_dir of
         Some c \<Rightarrow>
           (if found then
              bind (run_all E env_dir venv
                      [(''git -C '' @ sq @ as_posix c @ sq @ '' rev-parse HEAD 2>/dev/null || echo '' @ sq @
                          ''(not a git repo)'' @ sq, ''class_git_hash.txt''),
                       (''git -C '' @ sq @ as_posix c @ sq @ '' status --porcelain 2>/dev/null || true'',
                        ''class_git_status.txt''),
                       (''ls -la '' @ sq @ as_posix c @ sq, ''class_dir_ls.txt'')] s2) (\<lambda>_ s3.
              write_class_fingerprint E c (env_dir @ [''class_fingerprint_sha256.txt'']) s3)
            else
              write_all env_dir
                [(''class_git_hash.txt'', ''(skipped: CLASS dir not found under packages_path)'' @ nl),
                 (''class_fingerprint_sha256.txt'', ''(skipped: CLASS dir not found under packages_path)'' @ nl)] s2)
       | None \<Rightarrow>
           write_all env_dir
             [(''class_git_hash.txt'', ''(skipped: CLASS dir not found under packages_path)'' @ nl),
              (''class_fingerprint_sha256.txt'', ''(skipped: CLASS dir not found under packages_path)'' @ nl)] s2))))"

definition resolve_packages_path :: "('a env_scheme) \<Rightarrow> fs \<Rightarrow> path \<Rightarrow> string \<Rightarrow> path" where
  "resolve_packages_path E s staging_root extracted =
     (let x = expanduser (home E) extracted in
      if \<not> startswith x ''/'' then
        (if p_exists s (resolve (joinpath (home E) x)) then resolve (joinpath (home E) x)
         else resolve (joinpath staging_root x))
      else resolve (joinpath [] x))"

definition no_packages_path_notes :: "(string \<times> string) list" where
  "no_packages_path_notes =
     [(''packages_path_ls.txt'',
       ''packages_path could not be resolved from staged YAMLs.'' @ nl @
       ''If you used Cobaya externals, add packages_path: /path/to/cobaya_packages to YAML or share Cobaya config.'' @ nl),
      (''class_dir_found.txt'', ''CLASS dir not searched because packages_path was not found.'' @ nl),
      (''class_git_hash.txt'', ''(skipped: packages_path not found)'' @ nl),
      (''class_fingerprint_sha256.txt'', ''(skipped: packages_path not found)'' @ nl)]"

definition probe_packages_path ::
  "('a env_scheme) \<Rightarrow> path \<Rightarrow> string option \<Rightarrow> path \<Rightarrow> fs \<Rightarrow> unit result" where
  "probe_packages_path E env_dir venv staging_root s =
     (case read_file s (env_dir @ [''packages_path_grep.txt'']) of
        Inl e \<Rightarrow> Fail e s
      | Inr grep_text \<Rightarrow>
          (case extract_packages_path_from_grep grep_text of
             Inl e \<Rightarrow> Fail e s
           | Inr extracted \<Rightarrow>
               (let resolved = map_option (resolve_packages_path E s staging_root) extracted in
                bind (write_all env_dir
                        [(''packages_path_resolved.txt'',
                          (case resolved of Some p \<Rightarrow> as_posix p | None \<Rightarrow> ''(not found in YAMLs)'') @ nl)] s)
                  (\<lambda>_ s1.
                     case resolved of
                       Some p \<Rightarrow>
                         (if p_exists s1 p then probe_class_dir E env_dir venv p s1
                          else write_all env_dir no_packages_path_notes s1)
                     | None \<Rightarrow> write_all env_dir no_packages_path_notes s1))))"

definition capture_env_snapshot ::
  "('a env_scheme) \<Rightarrow> path \<Rightarrow> string option \<Rightarrow> fs \<Rightarrow> unit result" where
  "capture_env_snapshot E staging_root venv s =
     (let env_dir = staging_root @ [''tools'', ''env''] in
      bind (lift s (mkdir_parents s env_dir)) (\<lambda>_ s1.
      bind (run_all E env_dir venv basic_probes s1) (\<lambda>_ s2.
      (let cfg = find (is_file s2)
                   [home E @ [''.cobaya'', ''config.yaml''], home E @ [''.config'', ''cobaya'', ''config.yaml'']]
       in
       bind (write_all env_dir
               [(''cobaya_config_path.txt'',
                 (case cfg of Some p \<Rightarrow> as_posix p | None \<Rightarrow> ''(no config.yaml found)'') @ nl)] s2) (\<lambda>_ s3.
       bind (write_all env_dir
               [(''cobaya_config_contents.txt'',
                 (case cfg of
                    Some p \<Rightarrow> (case read_file s3 p of
                                 Inr txt \<Rightarrow> txt
                               | Inl e \<Rightarrow> ''ERROR reading '' @ as_posix p @ '':'' @ nl @ nl)
                  | None \<Rightarrow> ''(no config.yaml found)'' @ nl))] s3) (\<lambda>_ s4.
       bind (run_all E env_dir venv
               [(''echo '' @ dq @ ''COBAYA_PACKAGES_PATH=${COBAYA_PACKAGES_PATH:-'' @ sq @ ''(not set)'' @ sq @
                   ''}'' @ dq, ''cobaya_packages_path_env.txt''),
                (''cd '' @ sq @ as_posix staging_root @ sq @ '' && grep -R '' @ dq @ ''packages_path'' @ dq @
                   '' -n . 2>/dev/null || true'', ''packages_path_grep.txt'')] s4) (\<lambda>_ s5.
       probe_packages_path E env_dir venv staging_root s5)))))))"

subsection \<open>Notes, archive and the command line\<close>

text \<open>
  \<open>select_runs\<close> is the part of \<^verbatim>\<open>main\<close> that determines the run list, \<open>stage_files\<close> the two
  copy loops and \<open>package\<close> everything from \<^verbatim>\<open>ensure_empty_dir\<close> on. An exception that leaves
  \<^verbatim>\<open>main\<close> ends the process with status 1. In the script: \<^verbatim>\<open>write_notes\<close> lines 180-205,
  \<^verbatim>\<open>make_archive\<close> 208-229 and \<^verbatim>\<open>main\<close> 569-666, of which \<open>select_runs\<close> is lines 596-624
  (\<open>runs_from_args\<close> 597-609, \<open>resolve_run_dirs\<close> 619-624), \<open>stage_files\<close> lines 628-646 and
  \<open>package\<close> lines 626-658.
\<close>

definition FIG_CMD_SNIPPET :: string where
  "FIG_CMD_SNIPPET =
     ''python3 generate_fig4_fig5_from_chains.py '' @ bsl @ nl @
     ''  --tracker-dir ~/ace_global_fixed_desiDR2 '' @ bsl @ nl @
     ''  --lcdm-dir ~/lcdm_baseline_desiDR2 '' @ bsl @ nl @
     ''  --output-dir ~/paper_plots'' @ nl"

definition repr_list :: "string list \<Rightarrow> string" where
  "repr_list xs = ''['' @ join_with '', '' (map (\<lambda>x. sq @ x @ sq) xs) @ '']''"

definition notes_text :: "path \<Rightarrow> string list \<Rightarrow> bool \<Rightarrow> string" where
  "notes_text base_p run_names snapshot =
     ''Packaging notes'' @ nl @ nl @
     ''Base directory:'' @ nl @ ''  '' @ as_posix base_p @ nl @ nl @
     ''Run directories included:'' @ nl @ ''  '' @
       (if run_names \<noteq> [] then join_with '', '' run_names else ''(auto-detected)'') @ nl @ nl @
     ''Included patterns:'' @ nl @ ''  '' @ repr_list INCLUDE_PATTERNS @ nl @ nl @
     ''Excluded patterns:'' @ nl @ ''  '' @ repr_list EXCLUDE_PATTERNS @ nl @ nl @
     ''Explicit extra files:'' @ nl @ ''  '' @ repr_list EXPLICIT_FILES @ nl @ nl @
     ''Environment snapshot captured:'' @ nl @ ''  '' @ (if snapshot then ''True'' else ''False'') @ nl @ nl @
     ''Figure command used in the paper (for README):'' @ nl @ FIG_CMD_SNIPPET @ nl"

definition write_notes :: "path \<Rightarrow> path \<Rightarrow> string list \<Rightarrow> bool \<Rightarrow> fs \<Rightarrow> unit result" where
  "write_notes staging_root base_p run_names snapshot s =
     lift s (write_file s (staging_root @ [''PACKAGING_NOTES.txt'']) (notes_text base_p run_names snapshot))"

definition write_archive :: "('a env_scheme) \<Rightarrow> string \<Rightarrow> string \<Rightarrow> path \<Rightarrow> fs \<Rightarrow> path option result" where
  "write_archive E fmt suffix staging_root s =
     (let out_file = joinpath (parent staging_root) (name staging_root @ suffix) in
      bind (if p_exists s out_file then lift s (unlink s out_file) else Ok () s) (\<lambda>_ s1.
      bind (lift s1 (write_file s1 out_file (archive_bytes E fmt s1 staging_root))) (\<lambda>_ s2.
        Ok (Some out_file) s2)))"

definition make_archive :: "('a env_scheme) \<Rightarrow> path \<Rightarrow> bool \<Rightarrow> bool \<Rightarrow> fs \<Rightarrow> path option result" where
  "make_archive E staging_root zip_flag targz_flag s =
     (if \<not> zip_flag \<and> \<not> targz_flag then Ok None s
      else if zip_flag then write_archive E ''zip'' ''.zip'' staging_root s
      else if targz_flag then write_archive E ''gztar'' ''.tar.gz'' staging_root s
      else Ok None s)"

record args =
  base :: string
  out :: string
  runs :: "string list option"
  runs_from_file :: "string option"
  auto_detect_runs :: bool
  force :: bool
  zip_opt :: bool
  targz :: bool
  env_snapshot :: bool
  venv_activate :: "string option"

datatype outcome = Returned int | Raised exn

definition exit_status :: "outcome \<Rightarrow> int" where
  "exit_status r = (case r of Returned n \<Rightarrow> n | Raised e \<Rightarrow> 1)"

definition runs_file_lines :: "string \<Rightarrow> string list" where
  "runs_file_lines txt =
     map strip (filter (\<lambda>ln. strip ln \<noteq> [] \<and> \<not> startswith (strip ln) ''#'') (splitlines txt))"

fun resolve_run_dirs :: "fs \<Rightarrow> path \<Rightarrow> string list \<Rightarrow> path list \<Rightarrow> outcome + path list" where
  "resolve_run_dirs s base_p [] run_dirs = Inr run_dirs"
| "resolve_run_dirs s base_p (r # rs) run_dirs =
     (let d = resolve (joinpath base_p r) in
      if \<not> p_exists s d \<or> \<not> is_dir s d then Inl (Returned 2)
      else resolve_run_dirs s base_p rs (run_dirs @ [d]))"

definition runs_from_args :: "('a env_scheme) \<Rightarrow> ('b args_scheme) \<Rightarrow> fs \<Rightarrow> outcome + string list" where
  "runs_from_args E a s =
     (case (if truthy (runs_from_file a) then
              (let rf = resolve_arg E (or_empty (runs_from_file a)) in
               if \<not> p_exists s rf then Inl (Returned 2)
               else case read_file s rf of
                 Inl e \<Rightarrow> Inl (Raised e)
               | Inr txt \<Rightarrow> Inr (runs_file_lines txt))
            else Inr [])
      of Inl r \<Rightarrow> Inl r
       | Inr from_file \<Rightarrow> Inr (if truthy (runs a) then or_empty (runs a) else from_file))"

definition select_runs ::
  "('a env_scheme) \<Rightarrow> ('b args_scheme) \<Rightarrow> fs \<Rightarrow> path \<Rightarrow> outcome + (string list \<times> path list)" where
  "select_runs E a s base_p =
     (case runs_from_args E a s of
        Inl r \<Rightarrow> Inl r
      | Inr run_names \<Rightarrow>
          if auto_detect_runs a then
            (case detect_run_dirs s base_p of
               Inl e \<Rightarrow> Inl (Raised e)
             | Inr run_dirs \<Rightarrow> Inr (map name run_dirs, run_dirs))
          else if run_names = [] then Inl (Returned 2)
          else (case resolve_run_dirs s base_p run_names [] of
                  Inl r \<Rightarrow> Inl r
                | Inr run_dirs \<Rightarrow> Inr (run_names, run_dirs)))"

fun copy_run_dirs ::
  "('a env_scheme) \<Rightarrow> path list \<Rightarrow> path \<Rightarrow> CopiedFile list \<Rightarrow> fs \<Rightarrow> CopiedFile list result" where
  "copy_run_dirs E [] out_p copied s = Ok copied s"
| "copy_run_dirs E (d # ds) out_p copied s =
     bind (copy_run_dir E d out_p copied s) (\<lambda>copied' s'. copy_run_dirs E ds out_p copied' s')"

fun copy_explicit_files ::
  "('a env_scheme) \<Rightarrow> string list \<Rightarrow> path \<Rightarrow> CopiedFile list \<Rightarrow> fs \<Rightarrow> CopiedFile list result" where
  "copy_explicit_files E [] out_p copied s = Ok copied s"
| "copy_explicit_files E (p # ps) out_p copied s =
     (let src_p = resolve_arg E p in
      if \<not> p_exists s src_p \<or> \<not> is_file s src_p then copy_explicit_files E ps out_p copied s
      else
        (let dst_p = (if name src_p = ''.bash_aliases'' then out_p @ [''tools'', ''.bash_aliases'']
                      else joinpath (out_p @ [''paper_plots'']) (name src_p))
         in bind (copy_file E src_p dst_p s)
              (\<lambda>c s'. copy_explicit_files E ps out_p (copied @ [c]) s')))"

definition stage_files ::
  "('a env_scheme) \<Rightarrow> path list \<Rightarrow> path \<Rightarrow> fs \<Rightarrow> CopiedFile list result" where
  "stage_files E run_dirs out_p s =
     bind (copy_run_dirs E run_dirs out_p [] s) (\<lambda>copied s1.
       copy_explicit_files E EXPLICIT_FILES out_p copied s1)"

definition package ::
  "('a env_scheme) \<Rightarrow> ('b args_scheme) \<Rightarrow> path \<Rightarrow> path \<Rightarrow> string list \<Rightarrow> path list \<Rightarrow> fs \<Rightarrow>
     path option result" where
  "package E a base_p out_p run_names run_dirs s =
     bind (ensure_empty_dir out_p (force a) s) (\<lambda>_ s1.
     bind (stage_files E run_dirs out_p s1) (\<lambda>copied s2.
     bind (if env_snapshot a then capture_env_snapshot E out_p (venv_activate a) s2 else Ok () s2) (\<lambda>_ s3.
     bind (write_manifest out_p copied s3) (\<lambda>_ s4.
     bind (write_notes out_p base_p run_names (env_snapshot a) s4) (\<lambda>_ s5.
       make_archive E out_p (zip_opt a) (targz a) s5)))))"

definition main :: "('a env_scheme) \<Rightarrow> ('b args_scheme) \<Rightarrow> fs \<Rightarrow> outcome \<times> fs" where
  "main E a s =
     (let base_p = resolve_arg E (base a); out_p = resolve_arg E (out a) in
      if \<not> p_exists s base_p then (Returned 2, s)
      else case select_runs E a s base_p of
        Inl r \<Rightarrow> (r, s)
      | Inr (run_names, run_dirs) \<Rightarrow>
          (case package E a base_p out_p run_names run_dirs s of
             Fail e s' \<Rightarrow> (Raised e, s')
           | Ok _ s' \<Rightarrow> (Returned 0, s')))"

subsection \<open>Example worlds\<close>

text \<open>Concrete environments, arguments and file systems on which the theorems below are
  instantiated.\<close>

definition detect_fs :: fs where
  "detect_fs =
     [([''base''], Dir),
      ([''base'', ''run_c''], Dir),
      ([''base'', ''run_c'', ''c.yaml''], File ''c''),
      ([''base'', ''run_c'', ''chain.1.txt''], File ''1''),
      ([''base'', ''run_a''], Dir),
      ([''base'', ''run_a'', ''a.yaml''], File ''a''),
      ([''base'', ''run_b''], Dir),
      ([''base'', ''run_b'', ''b.yaml''], File ''b''),
      ([''base'', ''run_b'', ''notes.txt''], File ''n''),
      ([''base'', ''readme.txt''], File ''r'')]"

definition E0 :: env where
  "E0 = \<lparr>home = [''home'', ''u''], cwd = [''work''], sha256_hex = (\<lambda>data. ''sha:'' @ data),
          run_bash = (\<lambda>cmd s. Inr (''$ '' @ last cmd @ nl)), archive_bytes = (\<lambda>fmt s p. fmt)\<rparr>"

definition args0 :: args where
  "args0 = \<lparr>base = ''.'', out = ''stage'', runs = None, runs_from_file = None,
             auto_detect_runs = False, force = False, zip_opt = False, targz = False,
             env_snapshot = False, venv_activate = None\<rparr>"

definition class_fs :: fs where
  "class_fs =
     [([''pkgs''], Dir),
      ([''pkgs'', ''code''], Dir),
      ([''pkgs'', ''code'', ''class_public''], Dir),
      ([''pkgs'', ''CLASS''], Dir),
      ([''pkgs'', ''CLASS'', ''main''], Dir),
      ([''pkgs'', ''CLASS'', ''main'', ''class.c''], File ''int main;''),
      ([''pkgs'', ''CLASS'', ''include''], Dir),
      ([''pkgs'', ''CLASS'', ''include'', ''class.h''], File ''#include'')]"

definition staged_fs :: fs where
  "staged_fs =
     [([''work''], Dir),
      ([''work'', ''runA''], Dir),
      ([''work'', ''runA'', ''chain.1.txt''], File ''1 2 3''),
      ([''work'', ''runA'', ''config.yaml''], File ''a: b''),
      ([''work'', ''stage''], Dir),
      ([''work'', ''stage'', ''previous.txt''], File ''kept'')]"

definition empty_fs :: fs where
  "empty_fs =
     [([''work''], Dir),
      ([''work'', ''notes''], Dir),
      ([''work'', ''notes'', ''todo.txt''], File ''x'')]"

definition two_runs_fs :: fs where
  "two_runs_fs =
     [([''work''], Dir),
      ([''work'', ''run_a''], Dir),
      ([''work'', ''run_a'', ''a.yaml''], File ''a''),
      ([''work'', ''run_a'', ''a.1.txt''], File ''1''),
      ([''work'', ''run_b''], Dir),
      ([''work'', ''run_b'', ''b.yaml''], File ''b'')]"

definition patterns_fs :: fs where
  "patterns_fs =
     [([''work''], Dir),
      ([''work'', ''runA''], Dir),
      ([''work'', ''runA'', ''chain.1.txt''], File ''1 2 3''),
      ([''work'', ''runA'', ''debug.txt''], File ''dbg''),
      ([''work'', ''runA'', ''sub''], Dir),
      ([''work'', ''runA'', ''sub'', ''cfg.yaml''], File ''k: v''),
      ([''work'', ''stage''], Dir)]"







definition tools_fs :: fs where
  "tools_fs =
     [([''work''], Dir),
      ([''work'', ''tools''], Dir),
      ([''work'', ''tools'', ''run.yaml''], File ''a: b''),
      ([''work'', ''tools'', ''env''], Dir),
      ([''work'', ''tools'', ''env'', ''uname.txt''], File ''old'')]"

section \<open>Properties\<close>

subsection \<open>Run selection and the output directory\<close>

text \<open>The selection phase fails only with exit code 2 or with an exception.\<close>

lemma resolve_run_dirs_Inl: "resolve_run_dirs s b rs acc = Inl r \<Longrightarrow> r = Returned 2"
  by (induction rs arbitrary: acc) (auto simp: Let_def split: if_splits)

lemma resolve_run_dirs_length:
  "resolve_run_dirs s b rs acc = Inr ds \<Longrightarrow> length ds = length acc + length rs"
  by (induction rs arbitrary: acc) (auto simp: Let_def split: if_splits)

lemma runs_from_args_Inl: "runs_from_args E a s = Inl r \<Longrightarrow> r = Returned 2 \<or> (\<exists>e. r = Raised e)"
  by (auto simp: runs_from_args_def Let_def split: if_splits sum.splits)

lemma select_runs_Inl: "select_runs E a s b = Inl r \<Longrightarrow> r = Returned 2 \<or> (\<exists>e. r = Raised e)"
  by (auto simp: select_runs_def split: sum.splits if_splits dest: runs_from_args_Inl resolve_run_dirs_Inl)

text \<open>
  Claim C1, as amended. When the output directory exists and \<^verbatim>\<open>--force\<close> is not given, the
  program ends without having changed the file system, with exit code 2 or with an
  exception; when the base directory exists and the run selection succeeds, it ends with the
  \<^verbatim>\<open>FileExistsError\<close> that \<^verbatim>\<open>ensure_empty_dir\<close> raises and \<^verbatim>\<open>main\<close> does not catch, which is
  process status 1 and not 2.
\<close>

theorem existing_output_without_force:
  assumes "p_exists s (resolve_arg E (out a))" and "\<not> force a"
  shows "snd (main E a s) = s
     \<and> (fst (main E a s) = Returned 2 \<or> (\<exists>e. fst (main E a s) = Raised e))
     \<and> (p_exists s (resolve_arg E (base a))
          \<and> (\<exists>sel. select_runs E a s (resolve_arg E (base a)) = Inr sel)
        \<longrightarrow> fst (main E a s) = Raised FileExistsError
          \<and> exit_status (fst (main E a s)) = 1)"
proof (cases "p_exists s (resolve_arg E (base a))")
  case False
  then show ?thesis by (simp add: main_def Let_def)
next
  case True
  show ?thesis
  proof (cases "select_runs E a s (resolve_arg E (base a))")
    case (Inl r)
    then show ?thesis using True select_runs_Inl[OF Inl] by (auto simp: main_def Let_def)
  next
    case (Inr sel)
    obtain names dirs where sel: "sel = (names, dirs)" by (cases sel)
    have "package E a (resolve_arg E (base a)) (resolve_arg E (out a)) names dirs s = Fail FileExistsError s"
      using assms by (simp add: package_def ensure_empty_dir_def bind_def)
    then show ?thesis using True Inr sel by (simp add: main_def Let_def exit_status_def)
  qed
qed

theorem existing_output_without_force_witness:
  "p_exists staged_fs (resolve_arg E0 (out (args0\<lparr>runs := Some [''runA'']\<rparr>)))
   \<and> \<not> force (args0\<lparr>runs := Some [''runA'']\<rparr>)
   \<and> main E0 (args0\<lparr>runs := Some [''runA'']\<rparr>) staged_fs = (Raised FileExistsError, staged_fs)"
proof -
  have h1: "p_exists staged_fs (resolve_arg E0 (out (args0\<lparr>runs := Some [''runA'']\<rparr>)))" by code_simp
  have h2: "\<not> force (args0\<lparr>runs := Some [''runA'']\<rparr>)" by code_simp
  have h3: "p_exists staged_fs (resolve_arg E0 (base (args0\<lparr>runs := Some [''runA'']\<rparr>)))" by code_simp
  have h4: "select_runs E0 (args0\<lparr>runs := Some [''runA'']\<rparr>) staged_fs
      (resolve_arg E0 (base (args0\<lparr>runs := Some [''runA'']\<rparr>))) = Inr ([''runA''], [[''work'', ''runA'']])"
    by code_simp
  show ?thesis
    using existing_output_without_force[OF h1 h2] h1 h2 h3 h4 by (auto simp: prod_eq_iff)
qed

text \<open>
  The claim as stated (exit code 2) fails: the run directory is valid, the output directory
  exists, \<^verbatim>\<open>--force\<close> is absent, and the process ends with status 1.
\<close>

theorem existing_output_exit_status_counterexample:
  "p_exists staged_fs (resolve_arg E0 (out (args0\<lparr>runs := Some [''runA'']\<rparr>)))
   \<and> \<not> force (args0\<lparr>runs := Some [''runA'']\<rparr>)
   \<and> fst (main E0 (args0\<lparr>runs := Some [''runA'']\<rparr>) staged_fs) = Raised FileExistsError
   \<and> exit_status (fst (main E0 (args0\<lparr>runs := Some [''runA'']\<rparr>) staged_fs)) \<noteq> 2"
  by code_simp

text \<open>
  Claim C2, as amended. Without the auto-detect switch, either the selection is non-empty
  (with one directory per selected name) or the program returns 2 or raises, and leaves the
  file system as it was.
\<close>

theorem manual_selection_nonempty_or_unchanged:
  assumes "\<not> auto_detect_runs a"
  shows "(\<exists>names dirs. select_runs E a s (resolve_arg E (base a)) = Inr (names, dirs)
            \<and> names \<noteq> [] \<and> length dirs = length names)
     \<or> (snd (main E a s) = s
          \<and> (fst (main E a s) = Returned 2 \<or> (\<exists>e. fst (main E a s) = Raised e)))"
proof (cases "p_exists s (resolve_arg E (base a))")
  case False
  then show ?thesis by (simp add: main_def Let_def)
next
  case True
  show ?thesis
  proof (cases "select_runs E a s (resolve_arg E (base a))")
    case (Inl r)
    then show ?thesis using True select_runs_Inl[OF Inl] by (auto simp: main_def Let_def)
  next
    case (Inr sel)
    obtain names dirs where sel: "sel = (names, dirs)" by (cases sel)
    have "names \<noteq> [] \<and> length dirs = length names"
      using Inr sel assms
      by (auto simp: select_runs_def split: sum.splits if_splits dest: resolve_run_dirs_length)
    then show ?thesis using Inr sel by simp
  qed
qed

theorem manual_selection_nonempty_or_unchanged_witness:
  "\<not> auto_detect_runs (args0\<lparr>runs := Some []\<rparr>)
   \<and> main E0 (args0\<lparr>runs := Some []\<rparr>) empty_fs = (Returned 2, empty_fs)
   \<and> select_runs E0 (args0\<lparr>runs := Some []\<rparr>) empty_fs [''work''] = Inl (Returned 2)"
proof -
  have h: "\<not> auto_detect_runs (args0\<lparr>runs := Some []\<rparr>)" by code_simp
  have r: "resolve_arg E0 (base (args0\<lparr>runs := Some []\<rparr>)) = [''work'']" by code_simp
  have sel: "select_runs E0 (args0\<lparr>runs := Some []\<rparr>) empty_fs [''work''] = Inl (Returned 2)"
    by code_simp
  have "fst (main E0 (args0\<lparr>runs := Some []\<rparr>) empty_fs) \<noteq> Raised e" for e by code_simp
  then show ?thesis
    using manual_selection_nonempty_or_unchanged[OF h, of E0 empty_fs] h r sel
    by (auto simp: prod_eq_iff)
qed

text \<open>
  The claim as stated fails under auto-detection: no directory below the base qualifies, the
  selection is empty, and the program creates the output directory and ends with code 0.
\<close>

theorem auto_detect_empty_selection_counterexample:
  "auto_detect_runs (args0\<lparr>auto_detect_runs := True\<rparr>)
   \<and> select_runs E0 (args0\<lparr>auto_detect_runs := True\<rparr>) empty_fs [''work''] = Inr ([], [])
   \<and> \<not> p_exists empty_fs [''work'', ''stage'']
   \<and> fst (main E0 (args0\<lparr>auto_detect_runs := True\<rparr>) empty_fs) = Returned 0
   \<and> is_dir (snd (main E0 (args0\<lparr>auto_detect_runs := True\<rparr>) empty_fs)) [''work'', ''stage'']
   \<and> snd (main E0 (args0\<lparr>auto_detect_runs := True\<rparr>) empty_fs) \<noteq> empty_fs"
  by code_simp

text \<open>
  Claim C3, as amended. With the auto-detect switch, the explicit run names have no effect on
  the selection, and a selection that succeeds is the result of auto-detection: the
  directories it found and their names.
\<close>

theorem auto_detect_overrides_explicit_runs:
  assumes "auto_detect_runs a"
  shows "select_runs E (a\<lparr>runs := r\<rparr>) s base_p = select_runs E a s base_p
     \<and> (select_runs E a s base_p = Inr (names, dirs)
        \<longrightarrow> detect_run_dirs s base_p = Inr dirs \<and> names = map name dirs)"
  using assms
  by (auto simp: select_runs_def runs_from_args_def Let_def split: sum.splits if_splits)

theorem auto_detect_overrides_explicit_runs_witness:
  "auto_detect_runs (args0\<lparr>auto_detect_runs := True, runs := Some [''run_b'']\<rparr>)
   \<and> select_runs E0 (args0\<lparr>auto_detect_runs := True, runs := Some [''run_b'']\<rparr>) two_runs_fs [''work'']
       = Inr ([''run_a''], [[''work'', ''run_a'']])
   \<and> detect_run_dirs two_runs_fs [''work''] = Inr [[''work'', ''run_a'']]"
proof -
  have h: "auto_detect_runs (args0\<lparr>auto_detect_runs := True, runs := Some [''run_b'']\<rparr>)" by code_simp
  have sel: "select_runs E0 (args0\<lparr>auto_detect_runs := True, runs := Some [''run_b'']\<rparr>) two_runs_fs [''work'']
       = Inr ([''run_a''], [[''work'', ''run_a'']])" by code_simp
  show ?thesis
    using auto_detect_overrides_explicit_runs[OF h, of E0 _ two_runs_fs "[''work'']" "[''run_a'']" "[[''work'', ''run_a'']]"]
      h sel by simp
qed

text \<open>
  The claim as stated (the explicit list wins) fails: \<^verbatim>\<open>run_b\<close> is named explicitly and exists,
  \<^verbatim>\<open>run_a\<close> is detected, and \<^verbatim>\<open>run_a\<close> alone is staged.
\<close>

theorem explicit_runs_do_not_win_counterexample:
  "auto_detect_runs (args0\<lparr>auto_detect_runs := True, runs := Some [''run_b'']\<rparr>)
   \<and> runs (args0\<lparr>auto_detect_runs := True, runs := Some [''run_b'']\<rparr>) = Some [''run_b'']
   \<and> is_dir two_runs_fs [''work'', ''run_b'']
   \<and> select_runs E0 (args0\<lparr>auto_detect_runs := True, runs := Some [''run_b'']\<rparr>) two_runs_fs [''work'']
       = Inr ([''run_a''], [[''work'', ''run_a'']])
   \<and> fst (main E0 (args0\<lparr>auto_detect_runs := True, runs := Some [''run_b'']\<rparr>) two_runs_fs) = Returned 0
   \<and> is_file (snd (main E0 (args0\<lparr>auto_detect_runs := True, runs := Some [''run_b'']\<rparr>) two_runs_fs))
        [''work'', ''stage'', ''run_a'', ''a.yaml'']
   \<and> \<not> p_exists (snd (main E0 (args0\<lparr>auto_detect_runs := True, runs := Some [''run_b'']\<rparr>) two_runs_fs))
        [''work'', ''stage'', ''run_b'']"
  by code_simp

subsection \<open>The collector\<close>

text \<open>A copy record names the file it was made from and the place it was copied to.\<close>

lemma matches_any_Nil: "\<not> matches_any f []"
  by (simp add: matches_any_def)

lemma matches_any_iff:
  "matches_any f pats = (\<exists>pat\<in>set pats. fnmatch (name f) pat \<or> fnmatch (as_posix f) pat)"
  by (auto simp: matches_any_def list_ex_iff)

lemma copy_file_record: "copy_file E f d s = Ok c s' \<Longrightarrow> src c = f \<and> dst c = d"
  by (auto simp: copy_file_def bind_def lift_def split: sum.splits result.splits)

lemma copy_run_files_excluded_skipped:
  "copy_run_files E inc exc rd drd files copied s =
     copy_run_files E inc [] rd drd (filter (\<lambda>f. \<not> matches_any f exc) files) copied s"
proof (induction files arbitrary: copied s)
  case Nil
  then show ?case by simp
next
  case (Cons f files)
  show ?case
  proof (cases "matches_any f exc")
    case True
    then show ?thesis using Cons by simp
  next
    case False
    then show ?thesis
      using Cons by (auto simp: matches_any_Nil bind_def split: option.splits result.splits)
  qed
qed

lemma copy_run_files_records:
  "copy_run_files E inc exc rd drd files copied s = Ok copied' s' \<Longrightarrow>
     \<exists>new. copied' = copied @ new \<and>
       (\<forall>c\<in>set new. src c \<in> set files \<and> \<not> matches_any (src c) exc \<and> matches_any (src c) inc
          \<and> (\<exists>rel. relative_to (src c) rd = Some rel \<and> dst c = drd @ rel))"
proof (induction files arbitrary: copied s)
  case Nil
  then show ?case by simp
next
  case (Cons f files)
  show ?case
  proof (cases "\<not> matches_any f exc \<and> matches_any f inc")
    case False
    then have "copy_run_files E inc exc rd drd files copied s = Ok copied' s'"
      using Cons.prems by (auto split: if_splits)
    from Cons.IH[OF this] show ?thesis by auto
  next
    case True
    then obtain rel c s1 where rel: "relative_to f rd = Some rel"
      and cf: "copy_file E f (drd @ rel) s = Ok c s1"
      and rest: "copy_run_files E inc exc rd drd files (copied @ [c]) s1 = Ok copied' s'"
      using Cons.prems by (auto simp: bind_def split: option.splits result.splits)
    from Cons.IH[OF rest] obtain new where new: "copied' = (copied @ [c]) @ new"
      "\<forall>c\<in>set new. src c \<in> set files \<and> \<not> matches_any (src c) exc \<and> matches_any (src c) inc
          \<and> (\<exists>rel. relative_to (src c) rd = Some rel \<and> dst c = drd @ rel)" by blast
    have "copied' = copied @ (c # new)" using new(1) by simp
    moreover have "\<forall>c\<in>set (c # new). src c \<in> set (f # files) \<and> \<not> matches_any (src c) exc
          \<and> matches_any (src c) inc \<and> (\<exists>rel. relative_to (src c) rd = Some rel \<and> dst c = drd @ rel)"
      using new(2) True rel copy_file_record[OF cf] by auto
    ultimately show ?thesis by blast
  qed
qed

text \<open>
  Claim C4. For every pair of pattern lists, the loop of \<^verbatim>\<open>copy_run_dir\<close> does exactly what it
  does on the listing from which the files matching an exclude pattern have been removed
  (same records, same file system, same failure), so an excluded file is never passed to
  \<^verbatim>\<open>copy_file\<close>, whatever the include patterns. Every record the collector adds is of a file
  whose name and whose slash-separated path match no exclude pattern; this holds in
  particular for the script's own pattern lists.
\<close>

theorem excluded_files_never_copied:
  "copy_run_files E inc exc run_dir dst_run_dir files copied s =
     copy_run_files E inc [] run_dir dst_run_dir (filter (\<lambda>f. \<not> matches_any f exc) files) copied s
   \<and> (copy_run_dir_with E inc exc run_dir staging_root copied s = Ok copied' s'
      \<longrightarrow> (\<exists>new. copied' = copied @ new
            \<and> (\<forall>c\<in>set new. \<forall>pat\<in>set exc.
                  \<not> fnmatch (name (src c)) pat \<and> \<not> fnmatch (as_posix (src c)) pat)
            \<and> (\<forall>c\<in>set new. matches_any (src c) inc)))
   \<and> (copy_run_dir E run_dir staging_root copied s = Ok copied' s'
      \<longrightarrow> (\<exists>new. copied' = copied @ new
            \<and> (\<forall>c\<in>set new. \<forall>pat\<in>set EXCLUDE_PATTERNS.
                  \<not> fnmatch (name (src c)) pat \<and> \<not> fnmatch (as_posix (src c)) pat)))"
proof -
  have g: "\<exists>new. copied' = copied @ new
            \<and> (\<forall>c\<in>set new. \<forall>pat\<in>set ex.
                  \<not> fnmatch (name (src c)) pat \<and> \<not> fnmatch (as_posix (src c)) pat)
            \<and> (\<forall>c\<in>set new. matches_any (src c) ic)"
    if h: "copy_run_dir_with E ic ex run_dir staging_root copied s = Ok copied' s'" for ic ex
  proof -
    obtain s1 where "copy_run_files E ic ex run_dir (joinpath staging_root (name run_dir))
        (iter_run_files s1 run_dir) copied s1 = Ok copied' s'"
      using h by (auto simp: copy_run_dir_with_def Let_def bind_def lift_def split: sum.splits)
    from copy_run_files_records[OF this] show ?thesis
      unfolding matches_any_iff by blast
  qed
  show ?thesis
    using copy_run_files_excluded_skipped[of E inc exc run_dir dst_run_dir files copied s]
      g[of inc exc] g[of INCLUDE_PATTERNS EXCLUDE_PATTERNS]
    unfolding copy_run_dir_def by blast
qed

theorem excluded_files_never_copied_witness:
  "copy_run_dir_with E0 [''*''] [''debug*'', ''*/sub/*''] [''work'', ''runA''] [''work'', ''stage''] [] patterns_fs
     = Ok [\<lparr>src = [''work'', ''runA'', ''chain.1.txt''], dst = [''work'', ''stage'', ''runA'', ''chain.1.txt''],
            size_b = 5, sha256 = ''sha:1 2 3''\<rparr>]
          (patterns_fs @ [([''work'', ''stage'', ''runA''], Dir),
                          ([''work'', ''stage'', ''runA'', ''chain.1.txt''], File ''1 2 3'')])
   \<and> fnmatch (name [''work'', ''runA'', ''debug.txt'']) ''*''
   \<and> fnmatch (name [''work'', ''runA'', ''debug.txt'']) ''debug*''
   \<and> fnmatch (as_posix [''work'', ''runA'', ''sub'', ''cfg.yaml'']) ''*/sub/*''
   \<and> \<not> fnmatch (name [''work'', ''runA'', ''chain.1.txt'']) ''debug*''
   \<and> \<not> fnmatch (as_posix [''work'', ''runA'', ''chain.1.txt'']) ''*/sub/*''"
proof -
  have r: "copy_run_dir_with E0 [''*''] [''debug*'', ''*/sub/*''] [''work'', ''runA''] [''work'', ''stage''] [] patterns_fs
     = Ok [\<lparr>src = [''work'', ''runA'', ''chain.1.txt''], dst = [''work'', ''stage'', ''runA'', ''chain.1.txt''],
            size_b = 5, sha256 = ''sha:1 2 3''\<rparr>]
          (patterns_fs @ [([''work'', ''stage'', ''runA''], Dir),
                          ([''work'', ''stage'', ''runA'', ''chain.1.txt''], File ''1 2 3'')])"
    by code_simp
  have m: "fnmatch (name [''work'', ''runA'', ''debug.txt'']) ''*''"
    "fnmatch (name [''work'', ''runA'', ''debug.txt'']) ''debug*''"
    "fnmatch (as_posix [''work'', ''runA'', ''sub'', ''cfg.yaml'']) ''*/sub/*''"
    by code_simp+
  show ?thesis
    using excluded_files_never_copied[of E0 "[''*'']" "[''debug*'', ''*/sub/*'']" "[''work'', ''runA'']" _ _ "[]"
        patterns_fs "[''work'', ''stage'']", THEN conjunct2, THEN conjunct1, rule_format, OF r] r m
    by auto
qed

subsection \<open>The manifest\<close>







lemma read_after_write:
  "write_file s p data = Inr s' \<Longrightarrow> read_file s' p = Inr data"
  by (auto simp: write_file_def read_file_def node_at_def is_dir_def update_conv' split: if_splits)





subsection \<open>Auto-detection\<close>

text \<open>A pattern made of a star and literal characters matches the names that end in them.\<close>

lemma glob_match_literal:
  "\<forall>c\<in>set lit. c \<noteq> CHR ''*'' \<and> c \<noteq> CHR ''?'' \<and> c \<noteq> CHR ''['' \<Longrightarrow> glob_match lit s = (s = lit)"
  by (induction lit arbitrary: s) (auto split: list.splits)

lemma glob_match_star_literal:
  assumes "\<forall>c\<in>set lit. c \<noteq> CHR ''*'' \<and> c \<noteq> CHR ''?'' \<and> c \<noteq> CHR ''[''"
  shows "glob_match (CHR ''*'' # lit) s = (\<exists>stem. s = stem @ lit)"
proof (induction s)
  case Nil
  then show ?case using glob_match_literal[OF assms, of "[]"] by auto
next
  case (Cons c s)
  have "glob_match (CHR ''*'' # lit) (c # s) = (c # s = lit \<or> glob_match (CHR ''*'' # lit) s)"
    using glob_match_literal[OF assms, of "c # s"] by simp
  also have "\<dots> = (c # s = lit \<or> (\<exists>stem. s = stem @ lit))" using Cons by simp
  also have "\<dots> = (\<exists>stem. c # s = stem @ lit)"
    by (metis append_Nil append_Cons append_eq_Cons_conv)
  finally show ?case .
qed

lemma fnmatch_yaml: "fnmatch n ''*.yaml'' = (\<exists>stem. n = stem @ ''.yaml'')"
  unfolding fnmatch_def by (rule glob_match_star_literal) simp

lemma fnmatch_txt: "fnmatch n ''*.txt'' = (\<exists>stem. n = stem @ ''.txt'')"
  unfolding fnmatch_def by (rule glob_match_star_literal) simp

lemma has_chain_iff: "has_chain txts = (txts \<noteq> [])"
  by (cases txts) (auto simp: has_chain_def)

lemma is_run_dir_iff:
  "is_run_dir s d =
     (is_dir s d \<and> (\<exists>p\<in>set (children s d). \<exists>stem. name p = stem @ ''.yaml'')
        \<and> (\<exists>p\<in>set (children s d). \<exists>stem. name p = stem @ ''.txt''))"
  by (auto simp: is_run_dir_def Let_def has_chain_iff glob_def fnmatch_yaml fnmatch_txt filter_empty_conv)

lemma path_le_same_parent: "(b @ [x] \<le> b @ [y]) = (x \<le> (y :: string))"
  by (induction b) auto

lemma children_le_name:
  assumes "p \<in> set (children s d)" and "q \<in> set (children s d)"
  shows "(p \<le> q) = (name p \<le> name q)"
proof -
  have "p = d @ [name p]" "q = d @ [name q]"
    using assms by (auto simp: children_def name_def) (metis append_butlast_last_id)+
  then show ?thesis using path_le_same_parent by metis
qed

lemma sorted_names:
  assumes "sorted ds" and "set ds \<subseteq> set (children s d)"
  shows "sorted (map name ds)"
  using assms
proof (induction ds)
  case Nil
  then show ?case by simp
next
  case (Cons a ds)
  then show ?case using children_le_name[of a s d] by auto
qed

text \<open>
  Claim C5. For a base directory, \<^verbatim>\<open>detect_run_dirs\<close> returns exactly the directories directly
  below it that directly contain an entry whose name ends in \<^verbatim>\<open>.yaml\<close> and an entry whose name
  ends in \<^verbatim>\<open>.txt\<close> (the test for a numbered chain file adds nothing to the test that a
  \<^verbatim>\<open>.txt\<close> entry is there), in ascending order of their paths, which is the lexicographic
  order of their names. \<^verbatim>\<open>Path.glob\<close> matches entries by name, whether files or directories.
\<close>

theorem detect_run_dirs_selects:
  assumes "is_dir s base_p"
  shows "\<exists>ds. detect_run_dirs s base_p = Inr ds
           \<and> (\<forall>d. (d \<in> set ds) =
                  (d \<in> set (children s base_p) \<and> is_dir s d
                   \<and> (\<exists>p\<in>set (children s d). \<exists>stem. name p = stem @ ''.yaml'')
                   \<and> (\<exists>p\<in>set (children s d). \<exists>stem. name p = stem @ ''.txt'')))
           \<and> sorted ds \<and> sorted (map name ds)"
proof -
  define ds where "ds = sort (filter (is_run_dir s) (children s base_p))"
  have r: "detect_run_dirs s base_p = Inr ds"
    using assms by (simp add: detect_run_dirs_def iterdir_def is_dir_def ds_def)
  have m: "(d \<in> set ds) =
       (d \<in> set (children s base_p) \<and> is_dir s d
        \<and> (\<exists>p\<in>set (children s d). \<exists>stem. name p = stem @ ''.yaml'')
        \<and> (\<exists>p\<in>set (children s d). \<exists>stem. name p = stem @ ''.txt''))" for d
    unfolding ds_def by (simp add: is_run_dir_iff)
  have so: "sorted ds" unfolding ds_def by simp
  have "set ds \<subseteq> set (children s base_p)" unfolding ds_def by auto
  then have "sorted (map name ds)" using so sorted_names by blast
  then show ?thesis using r m so by blast
qed

theorem detect_run_dirs_selects_witness:
  "is_dir detect_fs [''base'']
   \<and> detect_run_dirs detect_fs [''base''] = Inr [[''base'', ''run_b''], [''base'', ''run_c'']]
   \<and> sorted (map name [[''base'', ''run_b''], [''base'', ''run_c'']])
   \<and> [''base'', ''run_a''] \<in> set (children detect_fs [''base''])"
proof -
  have d: "is_dir detect_fs [''base'']" by code_simp
  have e: "detect_run_dirs detect_fs [''base''] = Inr [[''base'', ''run_b''], [''base'', ''run_c'']]"
    by code_simp
  have c: "[''base'', ''run_a''] \<in> set (children detect_fs [''base''])" by code_simp
  show ?thesis using detect_run_dirs_selects[OF d] d e c by auto
qed

subsection \<open>Path-from-text extraction\<close>

text \<open>Splitting at the first occurrence of a separator, and stripping.\<close>

lemma split1_from_found:
  "sep \<noteq> [] \<Longrightarrow> \<forall>i<length pre. \<not> startswith (drop i (pre @ sep @ rest)) sep \<Longrightarrow>
     split1_from sep acc (pre @ sep @ rest) = [acc @ pre, rest]"
proof (induction pre arbitrary: acc)
  case Nil
  then show ?case by (cases sep) (auto simp: startswith_def)
next
  case (Cons c pre)
  have a: "\<not> startswith (c # pre @ sep @ rest) sep" using Cons.prems(2) by force
  have b: "\<forall>i<length pre. \<not> startswith (drop i (pre @ sep @ rest)) sep"
    using Cons.prems(2) by force
  show ?case using a Cons.IH[OF Cons.prems(1) b, of "acc @ [c]"] by simp
qed

lemma str_contains_iff: "str_contains sub s \<longleftrightarrow> (\<exists>i\<le>length s. startswith (drop i s) sub)"
proof (induction s)
  case Nil
  then show ?case by (auto simp: startswith_def)
next
  case (Cons c s)
  show ?case
  proof
    assume "str_contains sub (c # s)"
    then consider "startswith (c # s) sub" | "str_contains sub s" by auto
    then show "\<exists>i\<le>length (c # s). startswith (drop i (c # s)) sub"
    proof cases
      case 1
      then show ?thesis by (intro exI[of _ 0]) simp
    next
      case 2
      then obtain i where "i \<le> length s" "startswith (drop i s) sub" using Cons.IH by blast
      then show ?thesis by (intro exI[of _ "Suc i"]) simp
    qed
  next
    assume "\<exists>i\<le>length (c # s). startswith (drop i (c # s)) sub"
    then obtain i where i: "i \<le> length (c # s)" "startswith (drop i (c # s)) sub" by blast
    show "str_contains sub (c # s)"
    proof (cases i)
      case 0
      then show ?thesis using i by simp
    next
      case (Suc j)
      then show ?thesis using i Cons.IH by auto
    qed
  qed
qed

lemma str_contains_mid: "str_contains sub (pre @ sub @ rest)"
  unfolding str_contains_iff by (intro exI[of _ "length pre"]) (simp add: startswith_def)

lemma no_early_occurrence:
  assumes "\<not> str_contains sep (pre @ butlast sep)" and "i < length pre"
  shows "\<not> startswith (drop i (pre @ sep @ rest)) sep"
proof
  assume s: "startswith (drop i (pre @ sep @ rest)) sep"
  have sep: "sep \<noteq> []" using assms(1) by (cases pre) (auto simp: startswith_def)
  define P where "P = drop i pre @ butlast sep"
  have len: "length sep \<le> length P" using assms(2) sep by (simp add: P_def)
  have d1: "drop i (pre @ butlast sep) = P" using assms(2) by (simp add: P_def)
  have "sep @ rest = butlast sep @ (last sep # rest)" using sep by simp
  then have d2: "drop i (pre @ sep @ rest) = P @ (last sep # rest)"
    using assms(2) by (simp add: P_def)
  have t: "take (length sep) (P @ (last sep # rest)) = take (length sep) P" using len by simp
  have "startswith (P @ (last sep # rest)) sep" using s unfolding d2 .
  then have "take (length sep) (P @ (last sep # rest)) = sep" unfolding startswith_def .
  then have "take (length sep) P = sep" unfolding t .
  then have "startswith (drop i (pre @ butlast sep)) sep" unfolding d1 startswith_def .
  moreover have "i \<le> length (pre @ butlast sep)" using assms(2) by simp
  ultimately show False using assms(1) str_contains_iff by blast
qed

lemma split1_key:
  assumes "\<not> str_contains sep (pre @ butlast sep)"
  shows "split1 sep (pre @ sep @ rest) = [pre, rest]"
proof -
  have sep: "sep \<noteq> []" using assms by (cases pre) (auto simp: startswith_def)
  show ?thesis unfolding split1_def
    using split1_from_found[OF sep, of pre rest "[]"] no_early_occurrence[OF assms] by simp
qed


lemma strip_keeps:
  assumes "\<forall>c\<in>set sp. is_space c" and "\<not> is_space a" and "\<not> is_space b"
  shows "strip (sp @ a # mid @ b # rest) = a # mid @ b # rev (dropWhile is_space (rev rest))"
proof -
  have l: "dropWhile is_space (sp @ a # mid @ b # rest) = a # mid @ b # rest"
    using assms(1,2) by (simp add: dropWhile_append)
  have r: "rev (a # mid @ b # rest) = rev rest @ b # (rev mid @ [a])" by simp
  have "dropWhile is_space (rev rest @ b # (rev mid @ [a])) = dropWhile is_space (rev rest) @ b # (rev mid @ [a])"
    using assms(3) by (rule dropWhile_append3)
  then have "dropWhile is_space (rev (a # mid @ b # rest)) = dropWhile is_space (rev rest) @ b # (rev mid @ [a])"
    unfolding r .
  then show ?thesis unfolding strip_def l by simp
qed

lemma strip_keeps1:
  assumes "\<forall>c\<in>set sp. is_space c" and "\<not> is_space a"
  shows "strip (sp @ a # rest) = a # rev (dropWhile is_space (rev rest))"
proof -
  have l: "dropWhile is_space (sp @ a # rest) = a # rest"
    using assms by (simp add: dropWhile_append)
  have r: "rev (a # rest) = rev rest @ [a]" by simp
  have "dropWhile is_space (rev rest @ a # []) = dropWhile is_space (rev rest) @ a # []"
    using assms(2) by (rule dropWhile_append3)
  then have "dropWhile is_space (rev (a # rest)) = dropWhile is_space (rev rest) @ [a]"
    unfolding r .
  then show ?thesis unfolding strip_def l by simp
qed

lemma dropWhile_append_keep:
  "\<forall>c\<in>set ys. \<not> P c \<Longrightarrow> dropWhile P (xs @ ys) = dropWhile P xs @ ys"
  by (induction xs) (auto simp: dropWhile_eq_self_iff intro: hd_in_set)

lemma rstrip_head:
  "rev (dropWhile P (rev xs)) = [] \<or> hd (rev (dropWhile P (rev xs))) = hd xs"
proof -
  obtain n where "dropWhile P (rev xs) = drop n (rev xs)"
    by (metis dropWhile_eq_drop)
  then have "rev (dropWhile P (rev xs)) = take (length xs - n) xs"
    by (simp add: rev_drop)
  then show ?thesis by (cases xs; cases "length xs - n") auto
qed

lemma str_contains_char: "str_contains [c] s \<longleftrightarrow> c \<in> set s"
  by (induction s) (auto simp: startswith_def)

lemma split_ws_from_word:
  "\<forall>c\<in>set v. \<not> is_space c \<Longrightarrow> split_ws_from cur (v @ w) = split_ws_from (cur @ v) w"
  by (induction v arbitrary: cur) auto

lemma split_ws_from_nonempty:
  "cur \<noteq> [] \<or> (\<exists>c\<in>set s. \<not> is_space c) \<Longrightarrow> split_ws_from cur s \<noteq> []"
  by (induction s arbitrary: cur) auto

lemma split1_from_nonempty: "split1_from sep acc s \<noteq> []"
  by (induction s arbitrary: acc) auto

lemma split1_from_two:
  "sep \<noteq> [] \<Longrightarrow> str_contains sep s \<Longrightarrow> \<exists>a b. split1_from sep acc s = [a, b]"
  by (induction s arbitrary: acc) auto

lemma splitlines_from_prefix:
  "\<exists>ys. splitlines_from cur (t1 @ CHR 0x0A # t2) = splitlines_from cur t1 @ ys"
proof (induction t1 arbitrary: cur rule: length_induct)
  case (1 t1)
  show ?case
  proof (cases t1)
    case Nil
    then show ?thesis by (simp add: is_linebreak_def)
  next
    case (Cons c cs)
    show ?thesis
    proof (cases "c = CHR 0x0D \<and> take 1 (cs @ CHR 0x0A # t2) = [CHR 0x0A]")
      case True
      show ?thesis
      proof (cases cs)
        case Nil
        then show ?thesis using Cons True by (simp add: is_linebreak_def)
      next
        case (Cons d ds)
        have "length ds < length t1" using \<open>t1 = c # cs\<close> Cons by simp
        then obtain ys where "splitlines_from [] (ds @ CHR 0x0A # t2) = splitlines_from [] ds @ ys"
          using 1 by blast
        then show ?thesis using \<open>t1 = c # cs\<close> Cons True by simp
      qed
    next
      case False
      have f2: "\<not> (c = CHR 0x0D \<and> take 1 cs = [CHR 0x0A])" using False by (cases cs) auto
      have "length cs < length t1" using Cons by simp
      then have ih: "\<And>cur. \<exists>ys. splitlines_from cur (cs @ CHR 0x0A # t2) = splitlines_from cur cs @ ys"
        using 1 by blast
      show ?thesis
      proof (cases "is_linebreak c")
        case True
        then show ?thesis using Cons False f2 ih[of "[]"] by auto
      next
        case nl: False
        then show ?thesis using Cons False f2 ih[of "cur @ [c]"] by auto
      qed
    qed
  qed
qed

lemma splitlines_from_plain:
  "\<forall>c\<in>set l. \<not> is_linebreak c \<Longrightarrow> splitlines_from cur (l @ CHR 0x0A # t) = (cur @ l) # splitlines_from [] t"
  by (induction l arbitrary: cur) (auto simp: is_linebreak_def)

lemma splitlines_from_single:
  "\<forall>c\<in>set l. \<not> is_linebreak c \<Longrightarrow> splitlines_from cur l = (if cur @ l = [] then [] else [cur @ l])"
  by (induction l arbitrary: cur) (auto simp: is_linebreak_def)

lemma scan_lines_append:
  "scan_lines xs = Inr (Some v) \<Longrightarrow> scan_lines (xs @ ys) = Inr (Some v)"
  by (induction xs) (auto split: sum.splits option.splits)

lemma scan_line_total: "\<exists>r. scan_line l = Inr r"
proof (cases "str_contains ''packages_path'' l")
  case False
  then show ?thesis by (simp add: scan_line_def)
next
  case True
  then obtain a parts where p: "split1 ''packages_path'' l = [a, parts]"
    unfolding split1_def using split1_from_two[of "''packages_path''" l "[]"] by auto
  show ?thesis
  proof (cases "str_contains '':'' parts")
    case False
    then show ?thesis using True p by (simp add: scan_line_def)
  next
    case c: True
    then obtain b t where t: "split1 '':'' parts = [b, t]"
      unfolding split1_def using split1_from_two[of "'':''" parts "[]"] by auto
    define tail where "tail = strip t"
    have q: "\<exists>x. index0 (split1 (take 1 tail) (drop 1 tail)) = Inr x"
      using split1_from_nonempty[of "take 1 tail" "[]" "drop 1 tail"]
      by (cases "split1 (take 1 tail) (drop 1 tail)") (auto simp: split1_def)
    have w: "tail \<noteq> [] \<Longrightarrow> \<exists>x. index0 (split_ws tail) = Inr x"
    proof -
      assume ne: "tail \<noteq> []"
      define E where "E = dropWhile is_space (rev (dropWhile is_space t))"
      have te: "tail = rev E" unfolding tail_def strip_def E_def ..
      then have "E \<noteq> []" using ne by simp
      then have "\<not> is_space (hd E)" "hd E \<in> set E" unfolding E_def by (rule hd_dropWhile, rule hd_in_set)
      then have "\<exists>c\<in>set tail. \<not> is_space c" using te by auto
      then have "split_ws tail \<noteq> []" unfolding split_ws_def by (simp add: split_ws_from_nonempty)
      then show ?thesis by (cases "split_ws tail") auto
    qed
    define V where "V = (if is_quoted tail then index0 (split1 (take 1 tail) (drop 1 tail))
        else if tail \<noteq> [] then index0 (split_ws tail) else Inr [])"
    have "\<exists>x. V = Inr x" unfolding V_def using q w by (cases "tail = []") auto
    then obtain x where x: "V = Inr x" by blast
    have "scan_line l = (case V of Inl e \<Rightarrow> Inl e
        | Inr tail' \<Rightarrow> if tail' \<noteq> [] then Inr (Some tail') else Inr None)"
      unfolding scan_line_def V_def tail_def using True p c t by (simp add: Let_def)
    then show ?thesis using x by simp
  qed
qed

lemma scan_lines_total: "\<exists>r. scan_lines ls = Inr r"
proof (induction ls)
  case Nil
  then show ?case by simp
next
  case (Cons l ls)
  obtain r where "scan_line l = Inr r" using scan_line_total by blast
  then show ?case using Cons by (cases r) auto
qed


lemma scan_line_prefix:
  assumes "\<not> str_contains ''packages_path'' (pre @ ''packages_pat'')" and "CHR '':'' \<notin> set mid"
  shows "scan_line (pre @ ''packages_path'' @ mid @ '':'' @ t) =
    (case (if is_quoted (strip t) then index0 (split1 (take 1 (strip t)) (drop 1 (strip t)))
           else if strip t \<noteq> [] then index0 (split_ws (strip t)) else Inr [])
     of Inl e \<Rightarrow> Inl e
      | Inr tail' \<Rightarrow> if tail' \<noteq> [] then Inr (Some tail') else Inr None)"
proof -
  have k: "str_contains ''packages_path'' (pre @ ''packages_path'' @ mid @ '':'' @ t)"
    by (rule str_contains_mid)
  have "\<not> str_contains ''packages_path'' (pre @ butlast ''packages_path'')" using assms(1) by simp
  then have s1: "split1 ''packages_path'' (pre @ ''packages_path'' @ mid @ '':'' @ t) = [pre, mid @ '':'' @ t]"
    by (rule split1_key)
  have c: "str_contains '':'' (mid @ '':'' @ t)" by (rule str_contains_mid)
  have "\<not> str_contains '':'' (mid @ butlast '':'')" using assms(2) by (simp add: str_contains_char)
  then have s2: "split1 '':'' (mid @ '':'' @ t) = [mid, t]" by (rule split1_key)
  show ?thesis unfolding scan_line_def using k s1 c s2 by (simp add: Let_def)
qed

lemma scan_line_quoted:
  assumes "\<not> str_contains ''packages_path'' (pre @ ''packages_pat'')" and "CHR '':'' \<notin> set mid"
    and "\<forall>c\<in>set sp. is_space c" and "q = CHR 0x27 \<or> q = CHR 0x22"
    and "q \<notin> set body" and "body \<noteq> []"
  shows "scan_line (pre @ ''packages_path'' @ mid @ '':'' @ sp @ q # body @ q # rest) = Inr (Some body)"
proof -
  define R where "R = rev (dropWhile is_space (rev rest))"
  have nq: "\<not> is_space q" using assms(4) by (auto simp: is_space_def)
  have st: "strip (sp @ q # body @ q # rest) = q # body @ q # R"
    unfolding R_def using assms(3) nq nq by (rule strip_keeps)
  have iq: "is_quoted (q # body @ q # R)"
    using assms(4) by (auto simp: is_quoted_def startswith_def str_contains_char)
  have "\<not> str_contains [q] (body @ butlast [q])" using assms(5) by (simp add: str_contains_char)
  then have "split1 [q] (body @ [q] @ R) = [body, R]" by (rule split1_key)
  then have v: "index0 (split1 (take 1 (q # body @ q # R)) (drop 1 (q # body @ q # R))) = Inr body"
    by simp
  show ?thesis
    unfolding scan_line_prefix[OF assms(1,2)] st using iq v assms(6) by (simp del: One_nat_def)
qed

lemma scan_line_bare:
  assumes "\<not> str_contains ''packages_path'' (pre @ ''packages_pat'')" and "CHR '':'' \<notin> set mid"
    and "\<forall>c\<in>set sp. is_space c" and "v \<noteq> []" and "\<forall>c\<in>set v. \<not> is_space c"
    and "hd v \<noteq> CHR 0x27" and "hd v \<noteq> CHR 0x22"
    and "rest = [] \<or> is_space (hd rest)"
  shows "scan_line (pre @ ''packages_path'' @ mid @ '':'' @ sp @ v @ rest) = Inr (Some v)"
proof -
  obtain a v' where v: "v = a # v'" using assms(4) by (cases v) auto
  define R where "R = rev (dropWhile is_space (rev rest))"
  have na: "\<not> is_space a" using assms(5) v by simp
  have "strip (sp @ a # (v' @ rest)) = a # rev (dropWhile is_space (rev (v' @ rest)))"
    using assms(3) na by (rule strip_keeps1)
  moreover have "dropWhile is_space (rev rest @ rev v') = dropWhile is_space (rev rest) @ rev v'"
    using assms(5) v by (intro dropWhile_append_keep) simp
  ultimately have st: "strip (sp @ v @ rest) = v @ R" unfolding R_def v by simp
  have nq: "\<not> is_quoted (v @ R)" using assms(6,7) v by (simp add: is_quoted_def startswith_def)
  have Rh: "R = [] \<or> is_space (hd R)"
    using rstrip_head[of is_space rest] assms(8) unfolding R_def by auto
  have "split_ws (v @ R) = split_ws_from v R"
    unfolding split_ws_def using split_ws_from_word[OF assms(5), of "[]" R] by simp
  moreover have "\<exists>ws. split_ws_from v R = v # ws" using Rh assms(4) by (cases R) auto
  ultimately have w: "index0 (split_ws (v @ R)) = Inr v" by auto
  show ?thesis
    unfolding scan_line_prefix[OF assms(1,2)] st using nq w assms(4) by simp
qed

lemma extract_single_line:
  assumes "l \<noteq> []" and "\<forall>c\<in>set l. \<not> is_linebreak c" and "scan_line l = Inr (Some v)"
  shows "extract_packages_path_from_grep l = Inr (Some v)"
    and "extract_packages_path_from_grep (l @ CHR 0x0A # later) = Inr (Some v)"
  using assms
  by (simp_all add: extract_packages_path_from_grep_def splitlines_def splitlines_from_single
      splitlines_from_plain)

lemma extract_first_wins:
  assumes "extract_packages_path_from_grep t1 = Inr (Some v)"
  shows "extract_packages_path_from_grep (t1 @ CHR 0x0A # t2) = Inr (Some v)"
proof -
  obtain ys where "splitlines (t1 @ CHR 0x0A # t2) = splitlines t1 @ ys"
    unfolding splitlines_def using splitlines_from_prefix by blast
  then show ?thesis using assms scan_lines_append
    by (simp add: extract_packages_path_from_grep_def)
qed

lemma extract_skips_line:
  assumes "\<not> str_contains ''packages_path'' l" and "\<forall>c\<in>set l. \<not> is_linebreak c"
  shows "extract_packages_path_from_grep (l @ CHR 0x0A # t) = extract_packages_path_from_grep t"
  using assms
  by (simp add: extract_packages_path_from_grep_def splitlines_def splitlines_from_plain scan_line_def)

text \<open>
  Claim C6. \<^verbatim>\<open>_extract_packages_path_from_grep\<close> returns the value that follows the key
  \<^verbatim>\<open>packages_path\<close> and the next colon in the first line that has one, and ignores what comes
  after that line. The two texts of the specification give \<^verbatim>\<open>/home/x/pkgs\<close> and \<^verbatim>\<open>/a/b\<close>. In
  general, for a line in which the key first occurs after \<open>pre\<close>, followed by \<open>mid\<close> without a
  colon, a colon and white space: a value between two single or two double quotes is returned
  without the quotes, whatever follows the closing quote; a bare value is returned up to the
  next white space. A text whose extraction gives a value gives the same value when more lines
  are appended; a first line without the key is skipped; and the function never raises.
\<close>

theorem extract_packages_path_first_match:
  "extract_packages_path_from_grep (''foo.yaml:5:packages_path: '' @ sq @ ''/home/x/pkgs'' @ sq)
     = Inr (Some ''/home/x/pkgs'')
   \<and> extract_packages_path_from_grep ''packages_path : /a/b'' = Inr (Some ''/a/b'')
   \<and> (\<not> str_contains ''packages_path'' (pre @ ''packages_pat'') \<and> CHR '':'' \<notin> set mid
        \<and> (\<forall>c\<in>set sp. is_space c) \<and> (q = CHR 0x27 \<or> q = CHR 0x22) \<and> q \<notin> set body \<and> body \<noteq> []
        \<and> (\<forall>c\<in>set (pre @ mid @ sp @ body @ rest). \<not> is_linebreak c)
      \<longrightarrow> extract_packages_path_from_grep
            (pre @ ''packages_path'' @ mid @ '':'' @ sp @ [q] @ body @ [q] @ rest) = Inr (Some body)
        \<and> extract_packages_path_from_grep
            (pre @ ''packages_path'' @ mid @ '':'' @ sp @ [q] @ body @ [q] @ rest @ nl @ later)
          = Inr (Some body))
   \<and> (\<not> str_contains ''packages_path'' (pre @ ''packages_pat'') \<and> CHR '':'' \<notin> set mid
        \<and> (\<forall>c\<in>set sp. is_space c) \<and> v \<noteq> [] \<and> (\<forall>c\<in>set v. \<not> is_space c)
        \<and> hd v \<noteq> CHR 0x27 \<and> hd v \<noteq> CHR 0x22 \<and> (rest = [] \<or> is_space (hd rest))
        \<and> (\<forall>c\<in>set (pre @ mid @ sp @ v @ rest). \<not> is_linebreak c)
      \<longrightarrow> extract_packages_path_from_grep (pre @ ''packages_path'' @ mid @ '':'' @ sp @ v @ rest)
          = Inr (Some v)
        \<and> extract_packages_path_from_grep
            (pre @ ''packages_path'' @ mid @ '':'' @ sp @ v @ rest @ nl @ later) = Inr (Some v))
   \<and> (extract_packages_path_from_grep t1 = Inr (Some w)
      \<longrightarrow> extract_packages_path_from_grep (t1 @ nl @ t2) = Inr (Some w))
   \<and> (\<not> str_contains ''packages_path'' l \<and> (\<forall>c\<in>set l. \<not> is_linebreak c)
      \<longrightarrow> extract_packages_path_from_grep (l @ nl @ t2) = extract_packages_path_from_grep t2)
   \<and> (\<exists>r. extract_packages_path_from_grep txt = Inr r)"
proof (intro conjI impI)
  show "extract_packages_path_from_grep (''foo.yaml:5:packages_path: '' @ sq @ ''/home/x/pkgs'' @ sq)
     = Inr (Some ''/home/x/pkgs'')"
    unfolding sq_def by code_simp
  show "extract_packages_path_from_grep ''packages_path : /a/b'' = Inr (Some ''/a/b'')"
    by code_simp
  show "extract_packages_path_from_grep (t1 @ nl @ t2) = Inr (Some w)"
    if "extract_packages_path_from_grep t1 = Inr (Some w)"
    using extract_first_wins[OF that] by (simp add: nl_def)
  show "extract_packages_path_from_grep (l @ nl @ t2) = extract_packages_path_from_grep t2"
    if "\<not> str_contains ''packages_path'' l \<and> (\<forall>c\<in>set l. \<not> is_linebreak c)"
    using extract_skips_line[of l t2] that by (simp add: nl_def)
  show "\<exists>r. extract_packages_path_from_grep txt = Inr r"
    unfolding extract_packages_path_from_grep_def by (rule scan_lines_total)
next
  assume h: "\<not> str_contains ''packages_path'' (pre @ ''packages_pat'') \<and> CHR '':'' \<notin> set mid
        \<and> (\<forall>c\<in>set sp. is_space c) \<and> (q = CHR 0x27 \<or> q = CHR 0x22) \<and> q \<notin> set body \<and> body \<noteq> []
        \<and> (\<forall>c\<in>set (pre @ mid @ sp @ body @ rest). \<not> is_linebreak c)"
  define line where "line = pre @ ''packages_path'' @ mid @ '':'' @ sp @ q # body @ q # rest"
  have sl: "scan_line line = Inr (Some body)"
    unfolding line_def using h by (intro scan_line_quoted) auto
  have ne: "line \<noteq> []" unfolding line_def by simp
  have nb: "\<forall>c\<in>set line. \<not> is_linebreak c"
    unfolding line_def using h by (auto simp: is_linebreak_def)
  show "extract_packages_path_from_grep
            (pre @ ''packages_path'' @ mid @ '':'' @ sp @ [q] @ body @ [q] @ rest) = Inr (Some body)"
    using extract_single_line(1)[OF ne nb sl] by (simp add: line_def)
  show "extract_packages_path_from_grep
            (pre @ ''packages_path'' @ mid @ '':'' @ sp @ [q] @ body @ [q] @ rest @ nl @ later)
          = Inr (Some body)"
    using extract_single_line(2)[OF ne nb sl, of later] by (simp add: line_def nl_def)
next
  assume h: "\<not> str_contains ''packages_path'' (pre @ ''packages_pat'') \<and> CHR '':'' \<notin> set mid
        \<and> (\<forall>c\<in>set sp. is_space c) \<and> v \<noteq> [] \<and> (\<forall>c\<in>set v. \<not> is_space c)
        \<and> hd v \<noteq> CHR 0x27 \<and> hd v \<noteq> CHR 0x22 \<and> (rest = [] \<or> is_space (hd rest))
        \<and> (\<forall>c\<in>set (pre @ mid @ sp @ v @ rest). \<not> is_linebreak c)"
  define line where "line = pre @ ''packages_path'' @ mid @ '':'' @ sp @ v @ rest"
  have sl: "scan_line line = Inr (Some v)"
    unfolding line_def using h by (intro scan_line_bare) auto
  have ne: "line \<noteq> []" unfolding line_def by simp
  have nb: "\<forall>c\<in>set line. \<not> is_linebreak c"
    unfolding line_def using h by (auto simp: is_linebreak_def)
  show "extract_packages_path_from_grep (pre @ ''packages_path'' @ mid @ '':'' @ sp @ v @ rest)
          = Inr (Some v)"
    using extract_single_line(1)[OF ne nb sl] by (simp add: line_def)
  show "extract_packages_path_from_grep
            (pre @ ''packages_path'' @ mid @ '':'' @ sp @ v @ rest @ nl @ later) = Inr (Some v)"
    using extract_single_line(2)[OF ne nb sl, of later] by (simp add: line_def nl_def)
qed

theorem extract_packages_path_first_match_witness:
  "extract_packages_path_from_grep
     (''./runA/a.yaml:12:packages_path : '' @ [CHR 0x22] @ ''/opt/my pkgs'' @ [CHR 0x22] @ '' # note'' @ nl @
      ''./runB/b.yaml:3:packages_path: /other'') = Inr (Some ''/opt/my pkgs'')
   \<and> extract_packages_path_from_grep
       (''./runA/a.yaml:12:packages_path:   ~/cobaya_packages  # note'' @ nl @
        ''./runB/b.yaml:3:packages_path: /other'') = Inr (Some ''~/cobaya_packages'')
   \<and> extract_packages_path_from_grep ''x.yaml:1:packages_path: /first'' = Inr (Some ''/first'')
   \<and> extract_packages_path_from_grep (''x.yaml:1:packages_path: /first'' @ nl @ ''y.yaml:2:packages_path: /second'')
       = Inr (Some ''/first'')
   \<and> extract_packages_path_from_grep (''x.yaml:1:likelihood: foo'' @ nl @ ''y.yaml:2:packages_path: /second'')
       = Inr (Some ''/second'')"
proof -
  have k1: "\<not> str_contains ''packages_path'' (''./runA/a.yaml:12:'' @ ''packages_pat'')" by code_simp
  have q: "extract_packages_path_from_grep
     (''./runA/a.yaml:12:'' @ ''packages_path'' @ '' '' @ '':'' @ '' '' @ [CHR 0x22] @ ''/opt/my pkgs'' @
       [CHR 0x22] @ '' # note'' @ nl @ ''./runB/b.yaml:3:packages_path: /other'') = Inr (Some ''/opt/my pkgs'')"
    using extract_packages_path_first_match[of "''./runA/a.yaml:12:''" "'' ''" "'' ''" "CHR 0x22"
        "''/opt/my pkgs''" "'' # note''" "''./runB/b.yaml:3:packages_path: /other''"] k1
    by (simp add: is_space_def is_linebreak_def)
  have b: "extract_packages_path_from_grep
     (''./runA/a.yaml:12:'' @ ''packages_path'' @ [] @ '':'' @ ''   '' @ ''~/cobaya_packages'' @ ''  # note'' @ nl @
       ''./runB/b.yaml:3:packages_path: /other'') = Inr (Some ''~/cobaya_packages'')"
    using extract_packages_path_first_match[of "''./runA/a.yaml:12:''" "[]" "''   ''" _ _
        "''  # note''" "''./runB/b.yaml:3:packages_path: /other''" "''~/cobaya_packages''"] k1
    by (simp add: is_space_def is_linebreak_def)
  have f0: "extract_packages_path_from_grep ''x.yaml:1:packages_path: /first'' = Inr (Some ''/first'')"
    by code_simp
  have f: "extract_packages_path_from_grep (''x.yaml:1:packages_path: /first'' @ nl @ ''y.yaml:2:packages_path: /second'')
       = Inr (Some ''/first'')"
    using extract_packages_path_first_match[of _ _ _ _ _ _ _ _ "''x.yaml:1:packages_path: /first''" "''/first''"
        "''y.yaml:2:packages_path: /second''"] f0 by blast
  have k2: "\<not> str_contains ''packages_path'' ''x.yaml:1:likelihood: foo''" by code_simp
  have s0: "extract_packages_path_from_grep ''y.yaml:2:packages_path: /second'' = Inr (Some ''/second'')"
    by code_simp
  have s: "extract_packages_path_from_grep (''x.yaml:1:likelihood: foo'' @ nl @ ''y.yaml:2:packages_path: /second'')
       = Inr (Some ''/second'')"
    using extract_packages_path_first_match[of _ _ _ _ _ _ _ _ _ _ "''y.yaml:2:packages_path: /second''"
        "''x.yaml:1:likelihood: foo''"] k2 s0
    by (simp add: is_linebreak_def)
  show ?thesis using q b f0 f s by simp
qed

subsection \<open>Dependency tree discovery\<close>

text \<open>
  Claim C7, on the code: the first candidate, \<^verbatim>\<open>code/class_public\<close>, is an existing directory
  with neither marker file, a later candidate has both, and \<^verbatim>\<open>_find_class_dir\<close> returns the
  first: both branches of the marker test return the candidate.
\<close>

theorem find_class_dir_returns_unmarked_candidate:
  "find_class_dir class_fs [''pkgs''] = Some [''pkgs'', ''code'', ''class_public'']
   \<and> \<not> p_exists class_fs [''pkgs'', ''code'', ''class_public'', ''main'', ''class.c'']
   \<and> \<not> p_exists class_fs [''pkgs'', ''code'', ''class_public'', ''include'', ''class.h'']
   \<and> p_exists class_fs [''pkgs'', ''CLASS'', ''main'', ''class.c'']
   \<and> p_exists class_fs [''pkgs'', ''CLASS'', ''include'', ''class.h'']"
  by code_simp

subsection \<open>Source fingerprint\<close>



lemma length_encode_utf8:
  "length (encode_utf8 t) = length t + length (filter (\<lambda>c. \<not> of_char c < (128 :: nat)) t)"
  by (induction t) (auto simp: encode_utf8_def utf8_bytes_def)








subsection \<open>What the manifest lists\<close>

text \<open>
  Path strings: the two explicit files resolve to paths that end in their own names, and the
  archive is written to a path whose last component ends in the archive suffix.
\<close>

lemma split_char_from_sep:
  "split_char_from sep cur (A @ sep # B) = split_char_from sep cur A @ split_char_from sep [] B"
  by (induction A arbitrary: cur) auto

lemma split_char_from_plain: "sep \<notin> set s \<Longrightarrow> split_char_from sep cur s = [cur @ s]"
  by (induction s arbitrary: cur) auto

lemma split_char_from_last:
  "sep \<notin> set B \<Longrightarrow> \<exists>xs t. split_char_from sep cur (A @ B) = xs @ [t @ B]"
proof (induction A arbitrary: cur)
  case Nil
  then show ?case using split_char_from_plain[of sep B cur] by auto
next
  case (Cons c A)
  show ?case
  proof (cases "c = sep")
    case True
    obtain xs t where "split_char_from sep [] (A @ B) = xs @ [t @ B]" using Cons by blast
    then have "split_char_from sep cur ((c # A) @ B) = (cur # xs) @ [t @ B]" using True by simp
    then show ?thesis by blast
  next
    case False
    obtain xs t where "split_char_from sep (cur @ [c]) (A @ B) = xs @ [t @ B]" using Cons by blast
    then have "split_char_from sep cur ((c # A) @ B) = xs @ [t @ B]" using False by simp
    then show ?thesis by blast
  qed
qed

lemma startswith_as_posix: "startswith (as_posix p) ''/''"
  by (cases p) (auto simp: as_posix_def startswith_def)

lemma resolve_snoc: "c \<noteq> ''..'' \<Longrightarrow> resolve (p @ [c]) = resolve p @ [c]"
  by (simp add: resolve_def)

lemma resolve_append_plain: "''..'' \<notin> set q \<Longrightarrow> resolve (p @ q) = resolve p @ q"
proof (induction q rule: rev_induct)
  case Nil
  then show ?case by simp
next
  case (snoc c q)
  then have "resolve ((p @ q) @ [c]) = resolve (p @ q) @ [c]" by (intro resolve_snoc) auto
  then show ?case using snoc by simp
qed

lemma path_parts_home_file:
  assumes "CHR ''/'' \<notin> set f" and "f \<noteq> []" and "f \<noteq> ''.''"
  shows "path_parts (h @ CHR ''/'' # f) = path_parts h @ [f]"
  unfolding path_parts_def split_char_from_sep using assms
  by (simp add: split_char_from_plain)

lemma resolve_arg_bash_aliases:
  "resolve_arg E ''~/.bash_aliases'' = resolve (path_parts (as_posix (home E))) @ [''.bash_aliases'']"
proof -
  have e: "expanduser (home E) ''~/.bash_aliases'' = as_posix (home E) @ CHR ''/'' # ''.bash_aliases''"
    by (simp add: expanduser_def startswith_def)
  have s: "startswith (as_posix (home E) @ CHR ''/'' # ''.bash_aliases'') ''/''"
    using startswith_as_posix[of "home E"] by (cases "as_posix (home E)") (auto simp: startswith_def)
  have "path_parts (as_posix (home E) @ CHR ''/'' # ''.bash_aliases'') =
        path_parts (as_posix (home E)) @ [''.bash_aliases'']"
    by (rule path_parts_home_file) simp_all
  then show ?thesis
    unfolding resolve_arg_def e joinpath_def using s by (simp add: resolve_snoc)
qed

lemma resolve_arg_fig_script:
  "resolve_arg E ''~/paper_plots/generate_fig4_fig5_from_chains.py'' =
     resolve (path_parts (as_posix (home E))) @ [''paper_plots'', ''generate_fig4_fig5_from_chains.py'']"
proof -
  have e: "expanduser (home E) ''~/paper_plots/generate_fig4_fig5_from_chains.py'' =
      (as_posix (home E) @ CHR ''/'' # ''paper_plots'') @ CHR ''/'' # ''generate_fig4_fig5_from_chains.py''"
    by (simp add: expanduser_def startswith_def)
  have s: "startswith ((as_posix (home E) @ CHR ''/'' # ''paper_plots'') @ CHR ''/'' #
      ''generate_fig4_fig5_from_chains.py'') ''/''"
    using startswith_as_posix[of "home E"] by (cases "as_posix (home E)") (auto simp: startswith_def)
  have "path_parts ((as_posix (home E) @ CHR ''/'' # ''paper_plots'') @ CHR ''/'' #
          ''generate_fig4_fig5_from_chains.py'') =
        path_parts (as_posix (home E) @ CHR ''/'' # ''paper_plots'') @ [''generate_fig4_fig5_from_chains.py'']"
    by (rule path_parts_home_file) simp_all
  moreover have "path_parts (as_posix (home E) @ CHR ''/'' # ''paper_plots'') =
        path_parts (as_posix (home E)) @ [''paper_plots'']"
    by (rule path_parts_home_file) simp_all
  ultimately have "path_parts ((as_posix (home E) @ CHR ''/'' # ''paper_plots'') @ CHR ''/'' #
          ''generate_fig4_fig5_from_chains.py'') =
        (path_parts (as_posix (home E)) @ [''paper_plots'']) @ [''generate_fig4_fig5_from_chains.py'']"
    by simp
  then show ?thesis
    unfolding resolve_arg_def e joinpath_def using s by (simp add: resolve_append_plain)
qed

lemma joinpath_plain:
  assumes "CHR ''/'' \<notin> set n" and "n \<noteq> []" and "n \<noteq> ''.''"
  shows "joinpath p n = p @ [n]"
proof -
  have "\<not> startswith n ''/''" using assms(1,2) by (cases n) (auto simp: startswith_def)
  then show ?thesis using assms by (simp add: joinpath_def path_parts_def split_char_from_plain)
qed

lemma read_file_write_other:
  "write_file s p data = Inr s' \<Longrightarrow> q \<noteq> p \<Longrightarrow> read_file s' q = read_file s q"
  by (auto simp: write_file_def read_file_def node_at_def update_conv' split: if_splits)

lemma map_of_filter_other:
  "q \<noteq> p \<Longrightarrow> map_of (filter (\<lambda>(k, n). k \<noteq> p) s) q = map_of s q"
  by (induction s) auto

lemma read_file_unlink_other:
  "unlink s p = Inr s' \<Longrightarrow> q \<noteq> p \<Longrightarrow> read_file s' q = read_file s q"
  by (auto simp: unlink_def read_file_def node_at_def map_of_filter_other
      split: option.splits node.splits)

lemma archive_path_last:
  assumes "CHR ''/'' \<notin> set suffix" and "2 \<le> length suffix"
  shows "\<exists>pre t. joinpath p (n @ suffix) = pre @ [t @ suffix]"
proof -
  obtain xs t where x: "split_char_from (CHR ''/'') [] (n @ suffix) = xs @ [t @ suffix]"
    using split_char_from_last[OF assms(1)] by blast
  have l: "2 \<le> length (t @ suffix)" using assms(2) by simp
  have "length ''.'' = 1" by simp
  then have "t @ suffix \<noteq> [] \<and> t @ suffix \<noteq> ''.''" using l by (metis Suc_1 list.size(3) not_less_eq_eq zero_le One_nat_def)
  then have "path_parts (n @ suffix) = filter (\<lambda>c. c \<noteq> [] \<and> c \<noteq> ''.'') xs @ [t @ suffix]"
    unfolding path_parts_def x by simp
  then show ?thesis unfolding joinpath_def by (metis append.assoc append_Nil)
qed

lemma archive_path_not_manifest:
  assumes "suffix = ''.zip'' \<or> suffix = ''.tar.gz''"
  shows "joinpath p (n @ suffix) \<noteq> out_p @ [''MANIFEST.txt'']"
proof
  assume e: "joinpath p (n @ suffix) = out_p @ [''MANIFEST.txt'']"
  obtain pre t where "joinpath p (n @ suffix) = pre @ [t @ suffix]"
    using archive_path_last[of suffix p n] assms by auto
  then have "t @ suffix = ''MANIFEST.txt''" using e by (metis last_snoc)
  then have "last (t @ suffix) = last ''MANIFEST.txt''" by simp
  then show False using assms by auto
qed

lemma make_archive_keeps_manifest:
  assumes "make_archive E out_p z t s = Ok v s'"
  shows "read_file s' (out_p @ [''MANIFEST.txt'']) = read_file s (out_p @ [''MANIFEST.txt''])"
proof -
  have w: "read_file s' (out_p @ [''MANIFEST.txt'']) = read_file s (out_p @ [''MANIFEST.txt''])"
    if a: "write_archive E fmt suffix out_p s = Ok v s'" and sf: "suffix = ''.zip'' \<or> suffix = ''.tar.gz''"
    for fmt suffix
  proof -
    define f where "f = joinpath (parent out_p) (name out_p @ suffix)"
    have ne: "out_p @ [''MANIFEST.txt''] \<noteq> f"
      unfolding f_def using archive_path_not_manifest[OF sf] by metis
    obtain s1 where u: "(if p_exists s f then lift s (unlink s f) else Ok () s) = Ok () s1"
      and wf: "write_file s1 f (archive_bytes E fmt s1 out_p) = Inr s'"
      using a unfolding write_archive_def f_def[symmetric] Let_def
      by (auto simp: bind_def lift_def split: result.splits sum.splits)
    have "read_file s1 (out_p @ [''MANIFEST.txt'']) = read_file s (out_p @ [''MANIFEST.txt''])"
      using u ne by (auto simp: lift_def read_file_unlink_other split: if_splits sum.splits)
    then show ?thesis using read_file_write_other[OF wf ne] by simp
  qed
  show ?thesis using assms w[of "''zip''" "''.zip''"] w[of "''gztar''" "''.tar.gz''"]
    by (auto simp: make_archive_def split: if_splits)
qed

text \<open>The records of the two copy loops, and what a successful run of \<^verbatim>\<open>main\<close> went through.\<close>

lemma bind_Ok: "bind r f = Ok y t \<Longrightarrow> \<exists>x s. r = Ok x s \<and> f x s = Ok y t"
  by (cases r) (auto simp: bind_def)

lemma copy_run_dir_records:
  assumes "copy_run_dir E d out_p copied s = Ok copied' s'"
  shows "\<exists>new. copied' = copied @ new \<and>
           (\<forall>c\<in>set new. \<exists>rel. rel \<noteq> [] \<and> src c = d @ rel \<and> dst c = joinpath out_p (name d) @ rel)"
proof -
  obtain s1 where r: "copy_run_files E INCLUDE_PATTERNS EXCLUDE_PATTERNS d (joinpath out_p (name d))
        (iter_run_files s1 d) copied s1 = Ok copied' s'"
    using assms
    by (auto simp: copy_run_dir_def copy_run_dir_with_def Let_def bind_def lift_def split: sum.splits)
  from copy_run_files_records[OF r] obtain new where n: "copied' = copied @ new"
    "\<forall>c\<in>set new. src c \<in> set (iter_run_files s1 d)
          \<and> (\<exists>rel. relative_to (src c) d = Some rel \<and> dst c = joinpath out_p (name d) @ rel)"
    by blast
  have "\<exists>rel. rel \<noteq> [] \<and> src c = d @ rel \<and> dst c = joinpath out_p (name d) @ rel" if c: "c \<in> set new" for c
  proof -
    obtain rel where rel: "relative_to (src c) d = Some rel" "dst c = joinpath out_p (name d) @ rel"
      using n(2) c by blast
    have u: "under d (src c)" using n(2) c by (auto simp: iter_run_files_def rglob_def split: if_splits)
    have "src c = d @ rel" using rel(1)
      by (auto simp: relative_to_def split: if_splits) (metis append_take_drop_id)
    moreover have "rel \<noteq> []" using u rel(1) by (auto simp: under_def relative_to_def split: if_splits)
    ultimately show ?thesis using rel(2) by blast
  qed
  then show ?thesis using n(1) by blast
qed

lemma copy_run_dirs_records:
  "copy_run_dirs E ds out_p copied s = Ok copied' s' \<Longrightarrow>
     \<exists>new. copied' = copied @ new \<and>
       (\<forall>c\<in>set new. \<exists>d\<in>set ds. \<exists>rel. rel \<noteq> [] \<and> src c = d @ rel \<and> dst c = joinpath out_p (name d) @ rel)"
proof (induction ds arbitrary: copied s)
  case Nil
  then show ?case by simp
next
  case (Cons d ds)
  obtain c1 s1 where a: "copy_run_dir E d out_p copied s = Ok c1 s1"
    and b: "copy_run_dirs E ds out_p c1 s1 = Ok copied' s'"
    using Cons.prems bind_Ok by fastforce
  obtain n1 where n1: "c1 = copied @ n1"
    "\<forall>c\<in>set n1. \<exists>rel. rel \<noteq> [] \<and> src c = d @ rel \<and> dst c = joinpath out_p (name d) @ rel"
    using copy_run_dir_records[OF a] by blast
  obtain n2 where n2: "copied' = c1 @ n2"
    "\<forall>c\<in>set n2. \<exists>d\<in>set ds. \<exists>rel. rel \<noteq> [] \<and> src c = d @ rel \<and> dst c = joinpath out_p (name d) @ rel"
    using Cons.IH[OF b] by blast
  have "copied' = copied @ (n1 @ n2)" using n1(1) n2(1) by simp
  moreover have "\<forall>c\<in>set (n1 @ n2). \<exists>d'\<in>set (d # ds). \<exists>rel. rel \<noteq> [] \<and> src c = d' @ rel
      \<and> dst c = joinpath out_p (name d') @ rel"
    using n1(2) n2(2) by auto
  ultimately show ?case by blast
qed

lemma copy_explicit_files_records:
  "copy_explicit_files E ps out_p copied s = Ok copied' s' \<Longrightarrow>
     \<exists>new. copied' = copied @ new \<and>
       (\<forall>c\<in>set new. \<exists>p\<in>set ps. src c = resolve_arg E p \<and>
          dst c = (if name (resolve_arg E p) = ''.bash_aliases'' then out_p @ [''tools'', ''.bash_aliases'']
                   else joinpath (out_p @ [''paper_plots'']) (name (resolve_arg E p))))"
proof (induction ps arbitrary: copied s)
  case Nil
  then show ?case by simp
next
  case (Cons p ps)
  define sp where "sp = resolve_arg E p"
  define dp where "dp = (if name sp = ''.bash_aliases'' then out_p @ [''tools'', ''.bash_aliases'']
                   else joinpath (out_p @ [''paper_plots'']) (name sp))"
  show ?case
  proof (cases "\<not> p_exists s sp \<or> \<not> is_file s sp")
    case True
    then have "copy_explicit_files E ps out_p copied s = Ok copied' s'"
      using Cons.prems unfolding sp_def by (simp add: Let_def)
    from Cons.IH[OF this] obtain new where "copied' = copied @ new"
      "\<forall>c\<in>set new. \<exists>p\<in>set ps. src c = resolve_arg E p \<and>
          dst c = (if name (resolve_arg E p) = ''.bash_aliases'' then out_p @ [''tools'', ''.bash_aliases'']
                   else joinpath (out_p @ [''paper_plots'']) (name (resolve_arg E p)))"
      by blast
    then show ?thesis by (intro exI[of _ new]) (meson list.set_intros(2))
  next
    case False
    then have "bind (copy_file E sp dp s) (\<lambda>c s'. copy_explicit_files E ps out_p (copied @ [c]) s') = Ok copied' s'"
      using Cons.prems unfolding sp_def dp_def by (simp add: Let_def)
    then obtain c s1 where cf: "copy_file E sp dp s = Ok c s1"
      and rest: "copy_explicit_files E ps out_p (copied @ [c]) s1 = Ok copied' s'"
      using bind_Ok by fastforce
    obtain new where new: "copied' = (copied @ [c]) @ new"
      "\<forall>c\<in>set new. \<exists>p\<in>set ps. src c = resolve_arg E p \<and>
          dst c = (if name (resolve_arg E p) = ''.bash_aliases'' then out_p @ [''tools'', ''.bash_aliases'']
                   else joinpath (out_p @ [''paper_plots'']) (name (resolve_arg E p)))"
      using Cons.IH[OF rest] by blast
    have "copied' = copied @ (c # new)" using new(1) by simp
    moreover have "\<forall>c\<in>set (c # new). \<exists>p\<in>set (p # ps). src c = resolve_arg E p \<and>
          dst c = (if name (resolve_arg E p) = ''.bash_aliases'' then out_p @ [''tools'', ''.bash_aliases'']
                   else joinpath (out_p @ [''paper_plots'']) (name (resolve_arg E p)))"
    proof
      fix c' assume "c' \<in> set (c # new)"
      then consider "c' = c" | "c' \<in> set new" by auto
      then show "\<exists>p\<in>set (p # ps). src c' = resolve_arg E p \<and>
          dst c' = (if name (resolve_arg E p) = ''.bash_aliases'' then out_p @ [''tools'', ''.bash_aliases'']
                   else joinpath (out_p @ [''paper_plots'']) (name (resolve_arg E p)))"
      proof cases
        case 1
        have "src c' = resolve_arg E p \<and>
          dst c' = (if name (resolve_arg E p) = ''.bash_aliases'' then out_p @ [''tools'', ''.bash_aliases'']
                   else joinpath (out_p @ [''paper_plots'']) (name (resolve_arg E p)))"
          using copy_file_record[OF cf] 1 unfolding sp_def dp_def by simp
        then show ?thesis by (meson list.set_intros(1))
      next
        case 2
        then show ?thesis using new(2) by (meson list.set_intros(2))
      qed
    qed
    ultimately show ?thesis by blast
  qed
qed

lemma explicit_destinations:
  assumes "copy_explicit_files E EXPLICIT_FILES out_p copied s = Ok copied' s'"
  shows "\<exists>new. copied' = copied @ new \<and>
       (\<forall>c\<in>set new.
          (src c = resolve_arg E ''~/.bash_aliases'' \<and> dst c = out_p @ [''tools'', ''.bash_aliases''])
        \<or> (src c = resolve_arg E ''~/paper_plots/generate_fig4_fig5_from_chains.py''
            \<and> dst c = out_p @ [''paper_plots'', ''generate_fig4_fig5_from_chains.py'']))"
proof -
  have n1: "name (resolve_arg E ''~/.bash_aliases'') = ''.bash_aliases''"
    unfolding resolve_arg_bash_aliases by (simp add: name_def)
  have n2: "name (resolve_arg E ''~/paper_plots/generate_fig4_fig5_from_chains.py'') =
      ''generate_fig4_fig5_from_chains.py''"
    unfolding resolve_arg_fig_script by (simp add: name_def)
  have j: "joinpath (out_p @ [''paper_plots'']) ''generate_fig4_fig5_from_chains.py'' =
      out_p @ [''paper_plots'', ''generate_fig4_fig5_from_chains.py'']"
    using joinpath_plain[of "''generate_fig4_fig5_from_chains.py''" "out_p @ [''paper_plots'']"] by simp
  obtain new where new: "copied' = copied @ new"
    "\<forall>c\<in>set new. \<exists>p\<in>set EXPLICIT_FILES. src c = resolve_arg E p \<and>
          dst c = (if name (resolve_arg E p) = ''.bash_aliases'' then out_p @ [''tools'', ''.bash_aliases'']
                   else joinpath (out_p @ [''paper_plots'']) (name (resolve_arg E p)))"
    using copy_explicit_files_records[OF assms] by blast
  have "\<forall>c\<in>set new.
          (src c = resolve_arg E ''~/.bash_aliases'' \<and> dst c = out_p @ [''tools'', ''.bash_aliases''])
        \<or> (src c = resolve_arg E ''~/paper_plots/generate_fig4_fig5_from_chains.py''
            \<and> dst c = out_p @ [''paper_plots'', ''generate_fig4_fig5_from_chains.py''])"
  proof
    fix c assume "c \<in> set new"
    then obtain p where p: "p \<in> set EXPLICIT_FILES" "src c = resolve_arg E p"
      "dst c = (if name (resolve_arg E p) = ''.bash_aliases'' then out_p @ [''tools'', ''.bash_aliases'']
                   else joinpath (out_p @ [''paper_plots'']) (name (resolve_arg E p)))"
      using new(2) by blast
    from p(1) consider "p = ''~/.bash_aliases''" | "p = ''~/paper_plots/generate_fig4_fig5_from_chains.py''"
      by (auto simp: EXPLICIT_FILES_def)
    then show "(src c = resolve_arg E ''~/.bash_aliases'' \<and> dst c = out_p @ [''tools'', ''.bash_aliases''])
        \<or> (src c = resolve_arg E ''~/paper_plots/generate_fig4_fig5_from_chains.py''
            \<and> dst c = out_p @ [''paper_plots'', ''generate_fig4_fig5_from_chains.py''])"
    proof cases
      case 1
      then show ?thesis using p n1 by simp
    next
      case 2
      then show ?thesis using p n2 j by simp
    qed
  qed
  then show ?thesis using new(1) by blast
qed

lemma main_success:
  assumes "main E a s = (Returned 0, s')"
  shows "\<exists>names dirs v. select_runs E a s (resolve_arg E (base a)) = Inr (names, dirs)
     \<and> package E a (resolve_arg E (base a)) (resolve_arg E (out a)) names dirs s = Ok v s'"
proof -
  have e: "p_exists s (resolve_arg E (base a))"
    using assms by (auto simp: main_def Let_def split: if_splits)
  show ?thesis
  proof (cases "select_runs E a s (resolve_arg E (base a))")
    case (Inl r)
    then have "r = Returned 0" using assms e by (simp add: main_def Let_def)
    then show ?thesis using select_runs_Inl[OF Inl] by simp
  next
    case (Inr sel)
    obtain names dirs where sel: "sel = (names, dirs)" by (cases sel)
    show ?thesis using assms e Inr sel
      by (cases "package E a (resolve_arg E (base a)) (resolve_arg E (out a)) names dirs s")
         (auto simp: main_def Let_def)
  qed
qed

text \<open>
  What a run that returns 0 has recorded. \<^verbatim>\<open>MANIFEST.txt\<close> holds the manifest text of the
  records of the two copy loops and nothing else: the records of the files the collector
  copied from the selected run directories, each staged below the directory's name, followed
  by the records of the explicit files that were found, staged as \<^verbatim>\<open>tools/.bash_aliases\<close> and
  \<^verbatim>\<open>paper_plots/generate_fig4_fig5_from_chains.py\<close>. Writing the environment snapshot, the
  manifest, the notes and the archive adds no record and leaves the manifest file as written.
  No record's path below the staging root is \<^verbatim>\<open>MANIFEST.txt\<close>, \<^verbatim>\<open>PACKAGING_NOTES.txt\<close> or a path
  below \<^verbatim>\<open>tools/env\<close> as long as every selected run directory has a proper name (not empty, no
  slash, not a dot) other than \<^verbatim>\<open>tools\<close>: the script has no test of its own for that name.
\<close>

lemma successful_run_records:
  assumes "main E a s = (Returned 0, s')"
  shows "\<exists>names dirs s1 run_records s2 explicit s3.
      select_runs E a s (resolve_arg E (base a)) = Inr (names, dirs)
    \<and> ensure_empty_dir (resolve_arg E (out a)) (force a) s = Ok () s1
    \<and> copy_run_dirs E dirs (resolve_arg E (out a)) [] s1 = Ok run_records s2
    \<and> copy_explicit_files E EXPLICIT_FILES (resolve_arg E (out a)) run_records s2
        = Ok (run_records @ explicit) s3
    \<and> read_file s' (resolve_arg E (out a) @ [''MANIFEST.txt''])
        = manifest_text (resolve_arg E (out a)) (run_records @ explicit)
    \<and> (\<exists>txt. manifest_text (resolve_arg E (out a)) (run_records @ explicit) = Inr txt)
    \<and> (\<forall>c\<in>set run_records. \<exists>d\<in>set dirs. \<exists>rel. rel \<noteq> [] \<and> src c = d @ rel
          \<and> dst c = joinpath (resolve_arg E (out a)) (name d) @ rel)
    \<and> (\<forall>c\<in>set explicit.
          (src c = resolve_arg E ''~/.bash_aliases''
            \<and> dst c = resolve_arg E (out a) @ [''tools'', ''.bash_aliases''])
        \<or> (src c = resolve_arg E ''~/paper_plots/generate_fig4_fig5_from_chains.py''
            \<and> dst c = resolve_arg E (out a) @ [''paper_plots'', ''generate_fig4_fig5_from_chains.py'']))
    \<and> ((\<forall>d\<in>set dirs. CHR ''/'' \<notin> set (name d) \<and> name d \<noteq> [] \<and> name d \<noteq> ''.'' \<and> name d \<noteq> ''tools'')
        \<longrightarrow> (\<forall>c\<in>set (run_records @ explicit). \<exists>r. dst c = resolve_arg E (out a) @ r
               \<and> r \<noteq> [''MANIFEST.txt''] \<and> r \<noteq> [''PACKAGING_NOTES.txt'']
               \<and> take 2 r \<noteq> [''tools'', ''env'']))"
proof -
  define out_p where "out_p = resolve_arg E (out a)"
  define base_p where "base_p = resolve_arg E (base a)"
  obtain names dirs v where sel: "select_runs E a s base_p = Inr (names, dirs)"
    and pk: "package E a base_p out_p names dirs s = Ok v s'"
    using main_success[OF assms] unfolding out_p_def base_p_def by blast
  obtain u1 s1 where en: "ensure_empty_dir out_p (force a) s = Ok u1 s1"
    and p1: "bind (stage_files E dirs out_p s1) (\<lambda>copied s2.
       bind (if env_snapshot a then capture_env_snapshot E out_p (venv_activate a) s2 else Ok () s2) (\<lambda>_ s3.
       bind (write_manifest out_p copied s3) (\<lambda>_ s4.
       bind (write_notes out_p base_p names (env_snapshot a) s4) (\<lambda>_ s5.
         make_archive E out_p (zip_opt a) (targz a) s5)))) = Ok v s'"
    using pk unfolding package_def by (drule_tac bind_Ok) blast
  obtain copied s3 where st: "stage_files E dirs out_p s1 = Ok copied s3"
    and p2: "bind (if env_snapshot a then capture_env_snapshot E out_p (venv_activate a) s3 else Ok () s3) (\<lambda>_ s3.
       bind (write_manifest out_p copied s3) (\<lambda>_ s4.
       bind (write_notes out_p base_p names (env_snapshot a) s4) (\<lambda>_ s5.
         make_archive E out_p (zip_opt a) (targz a) s5))) = Ok v s'"
    using p1 by (drule_tac bind_Ok) blast
  obtain u4 s4 where p3: "bind (write_manifest out_p copied s4) (\<lambda>_ s4.
       bind (write_notes out_p base_p names (env_snapshot a) s4) (\<lambda>_ s5.
         make_archive E out_p (zip_opt a) (targz a) s5)) = Ok v s'"
    using p2 by (drule_tac bind_Ok) blast
  obtain u5 s5 where wm: "write_manifest out_p copied s4 = Ok u5 s5"
    and p4: "bind (write_notes out_p base_p names (env_snapshot a) s5) (\<lambda>_ s5.
         make_archive E out_p (zip_opt a) (targz a) s5) = Ok v s'"
    using p3 by (drule_tac bind_Ok) blast
  obtain u6 s6 where wn: "write_notes out_p base_p names (env_snapshot a) s5 = Ok u6 s6"
    and ma: "make_archive E out_p (zip_opt a) (targz a) s6 = Ok v s'"
    using p4 by (drule_tac bind_Ok) blast
  obtain run_records s2 where cr: "copy_run_dirs E dirs out_p [] s1 = Ok run_records s2"
    and ce: "copy_explicit_files E EXPLICIT_FILES out_p run_records s2 = Ok copied s3"
    using st unfolding stage_files_def by (drule_tac bind_Ok) blast
  obtain explicit where ex: "copied = run_records @ explicit"
    "\<forall>c\<in>set explicit.
          (src c = resolve_arg E ''~/.bash_aliases'' \<and> dst c = out_p @ [''tools'', ''.bash_aliases''])
        \<or> (src c = resolve_arg E ''~/paper_plots/generate_fig4_fig5_from_chains.py''
            \<and> dst c = out_p @ [''paper_plots'', ''generate_fig4_fig5_from_chains.py''])"
    using explicit_destinations[OF ce] by blast
  have rr: "\<forall>c\<in>set run_records. \<exists>d\<in>set dirs. \<exists>rel. rel \<noteq> [] \<and> src c = d @ rel
          \<and> dst c = joinpath out_p (name d) @ rel"
    using copy_run_dirs_records[OF cr] by simp
  obtain mtext where mt: "manifest_text out_p copied = Inr mtext"
    and wf: "write_file s4 (out_p @ [''MANIFEST.txt'']) mtext = Inr s5"
    using wm by (auto simp: write_manifest_def lift_def split: sum.splits)
  have r5: "read_file s5 (out_p @ [''MANIFEST.txt'']) = Inr mtext"
    using wf by (rule read_after_write)
  have "write_file s5 (out_p @ [''PACKAGING_NOTES.txt'']) (notes_text base_p names (env_snapshot a)) = Inr s6"
    using wn by (auto simp: write_notes_def lift_def split: sum.splits)
  then have r6: "read_file s6 (out_p @ [''MANIFEST.txt'']) = read_file s5 (out_p @ [''MANIFEST.txt''])"
    by (rule read_file_write_other) simp
  have r7: "read_file s' (out_p @ [''MANIFEST.txt'']) = manifest_text out_p copied"
    using make_archive_keeps_manifest[OF ma] r6 r5 mt by simp
  have nv: "\<forall>c\<in>set (run_records @ explicit). \<exists>r. dst c = out_p @ r
               \<and> r \<noteq> [''MANIFEST.txt''] \<and> r \<noteq> [''PACKAGING_NOTES.txt'']
               \<and> take 2 r \<noteq> [''tools'', ''env'']"
    if good: "\<forall>d\<in>set dirs. CHR ''/'' \<notin> set (name d) \<and> name d \<noteq> [] \<and> name d \<noteq> ''.'' \<and> name d \<noteq> ''tools''"
  proof
    fix c assume "c \<in> set (run_records @ explicit)"
    then consider "c \<in> set run_records" | "c \<in> set explicit" by auto
    then show "\<exists>r. dst c = out_p @ r \<and> r \<noteq> [''MANIFEST.txt''] \<and> r \<noteq> [''PACKAGING_NOTES.txt'']
               \<and> take 2 r \<noteq> [''tools'', ''env'']"
    proof cases
      case 1
      then obtain d rel where d: "d \<in> set dirs" "rel \<noteq> []" "dst c = joinpath out_p (name d) @ rel"
        using rr by blast
      have "joinpath out_p (name d) = out_p @ [name d]" using good d(1) by (intro joinpath_plain) auto
      then have "dst c = out_p @ (name d # rel)" using d(3) by simp
      moreover have "name d # rel \<noteq> [''MANIFEST.txt'']" "name d # rel \<noteq> [''PACKAGING_NOTES.txt'']"
        using d(2) by auto
      moreover have "take 2 (name d # rel) \<noteq> [''tools'', ''env'']"
        using good d(1) by (cases rel) auto
      ultimately show ?thesis by blast
    next
      case 2
      then consider "dst c = out_p @ [''tools'', ''.bash_aliases'']"
        | "dst c = out_p @ [''paper_plots'', ''generate_fig4_fig5_from_chains.py'']"
        using ex(2) by blast
      then show ?thesis
      proof cases
        case 1
        then show ?thesis by (intro exI[of _ "[''tools'', ''.bash_aliases'']"]) simp
      next
        case 2
        then show ?thesis by (intro exI[of _ "[''paper_plots'', ''generate_fig4_fig5_from_chains.py'']"]) simp
      qed
    qed
  qed
  have u1: "u1 = ()" by simp
  show ?thesis
    unfolding out_p_def[symmetric] base_p_def[symmetric]
    apply (rule exI[of _ names], rule exI[of _ dirs], rule exI[of _ s1], rule exI[of _ run_records],
        rule exI[of _ s2], rule exI[of _ explicit], rule exI[of _ s3])
    using sel en ce cr rr ex(2) r7 mt nv unfolding ex(1) u1 by blast
qed


lemma successful_run_records_example:
  "fst (main E0 (args0\<lparr>runs := Some [''runA''], force := True\<rparr>) staged_fs) = Returned 0
   \<and> select_runs E0 (args0\<lparr>runs := Some [''runA''], force := True\<rparr>) staged_fs [''work'']
       = Inr ([''runA''], [[''work'', ''runA'']])
   \<and> (\<exists>copied. read_file (snd (main E0 (args0\<lparr>runs := Some [''runA''], force := True\<rparr>) staged_fs))
                   [''work'', ''stage'', ''MANIFEST.txt'']
                 = manifest_text [''work'', ''stage''] copied
              \<and> (\<forall>c\<in>set copied. \<exists>r. dst c = [''work'', ''stage''] @ r
                    \<and> r \<noteq> [''MANIFEST.txt''] \<and> r \<noteq> [''PACKAGING_NOTES.txt'']
                    \<and> take 2 r \<noteq> [''tools'', ''env'']))
   \<and> read_file (snd (main E0 (args0\<lparr>runs := Some [''runA''], force := True\<rparr>) staged_fs))
        [''work'', ''stage'', ''MANIFEST.txt'']
       = Inr (''Total files: 2'' @ nl @ ''Total bytes: 9'' @ nl @ nl @ ''sha256  bytes  path'' @ nl @
              ''sha:1 2 3  5  runA/chain.1.txt'' @ nl @ ''sha:a: b  4  runA/config.yaml'' @ nl)"
proof -
  let ?a = "args0\<lparr>runs := Some [''runA''], force := True\<rparr>"
  have f: "fst (main E0 ?a staged_fs) = Returned 0" by code_simp
  have o: "resolve_arg E0 (out ?a) = [''work'', ''stage'']" by code_simp
  have b: "resolve_arg E0 (base ?a) = [''work'']" by code_simp
  have sel: "select_runs E0 ?a staged_fs [''work''] = Inr ([''runA''], [[''work'', ''runA'']])" by code_simp
  have m: "read_file (snd (main E0 ?a staged_fs)) [''work'', ''stage'', ''MANIFEST.txt'']
       = Inr (''Total files: 2'' @ nl @ ''Total bytes: 9'' @ nl @ nl @ ''sha256  bytes  path'' @ nl @
              ''sha:1 2 3  5  runA/chain.1.txt'' @ nl @ ''sha:a: b  4  runA/config.yaml'' @ nl)"
    by code_simp
  have h: "main E0 ?a staged_fs = (Returned 0, snd (main E0 ?a staged_fs))"
    using f by (simp add: prod_eq_iff)
  obtain names dirs run_records explicit where
    s: "select_runs E0 ?a staged_fs [''work''] = Inr (names, dirs)"
    and r: "read_file (snd (main E0 ?a staged_fs)) ([''work'', ''stage''] @ [''MANIFEST.txt''])
        = manifest_text [''work'', ''stage''] (run_records @ explicit)"
    and n: "(\<forall>d\<in>set dirs. CHR ''/'' \<notin> set (name d) \<and> name d \<noteq> [] \<and> name d \<noteq> ''.'' \<and> name d \<noteq> ''tools'')
        \<longrightarrow> (\<forall>c\<in>set (run_records @ explicit). \<exists>r. dst c = [''work'', ''stage''] @ r
               \<and> r \<noteq> [''MANIFEST.txt''] \<and> r \<noteq> [''PACKAGING_NOTES.txt'']
               \<and> take 2 r \<noteq> [''tools'', ''env''])"
    using successful_run_records[OF h] unfolding o b by blast
  have "Inr (names, dirs) = (Inr ([''runA''], [[''work'', ''runA'']]) :: outcome + (string list \<times> path list))"
    by (rule trans[OF s[symmetric] sel])
  then have "dirs = [[''work'', ''runA'']]" by simp
  then have "\<forall>c\<in>set (run_records @ explicit). \<exists>r. dst c = [''work'', ''stage''] @ r
               \<and> r \<noteq> [''MANIFEST.txt''] \<and> r \<noteq> [''PACKAGING_NOTES.txt'']
               \<and> take 2 r \<noteq> [''tools'', ''env'']"
    using n by (simp add: name_def)
  then have e: "\<exists>copied. read_file (snd (main E0 ?a staged_fs)) [''work'', ''stage'', ''MANIFEST.txt'']
                 = manifest_text [''work'', ''stage''] copied
              \<and> (\<forall>c\<in>set copied. \<exists>r. dst c = [''work'', ''stage''] @ r
                    \<and> r \<noteq> [''MANIFEST.txt''] \<and> r \<noteq> [''PACKAGING_NOTES.txt'']
                    \<and> take 2 r \<noteq> [''tools'', ''env''])"
    using r by (intro exI[of _ "run_records @ explicit"]) simp
  show ?thesis by (intro conjI f sel e m)
qed

lemma tools_run_evaluated:
  "(case main E0 (args0\<lparr>runs := Some [''tools''], env_snapshot := True\<rparr>) tools_fs of
      (r, s') \<Rightarrow>
        r = Returned 0
        \<and> read_file s' [''work'', ''stage'', ''MANIFEST.txt'']
            = Inr (''Total files: 2'' @ nl @ ''Total bytes: 7'' @ nl @ nl @ ''sha256  bytes  path'' @ nl @
                   ''sha:old  3  tools/env/uname.txt'' @ nl @ ''sha:a: b  4  tools/run.yaml'' @ nl)
        \<and> read_file s' [''work'', ''stage'', ''tools'', ''env'', ''uname.txt''] = Inr (''$ uname -a'' @ nl)
        \<and> read_file tools_fs [''work'', ''tools'', ''env'', ''uname.txt''] = Inr ''old'')"
  by code_simp

text \<open>
  Claim C10, on the code: the selected run directory is itself named \<^verbatim>\<open>tools\<close> and holds
  \<^verbatim>\<open>env/uname.txt\<close>, and the environment snapshot is requested. The run returns 0. The
  collector stages that file as \<^verbatim>\<open>tools/env/uname.txt\<close> and records it; the snapshot then writes
  the output of \<^verbatim>\<open>uname -a\<close> to the same path. The manifest has an entry for
  \<^verbatim>\<open>tools/env/uname.txt\<close>, the path of a snapshot artifact, and the entry carries the size and
  digest of the run's file, not of the file the staging directory holds.
\<close>

theorem manifest_lists_overwritten_snapshot_path:
  "fst (main E0 (args0\<lparr>runs := Some [''tools''], env_snapshot := True\<rparr>) tools_fs) = Returned 0
   \<and> read_file (snd (main E0 (args0\<lparr>runs := Some [''tools''], env_snapshot := True\<rparr>) tools_fs))
        [''work'', ''stage'', ''MANIFEST.txt'']
       = Inr (''Total files: 2'' @ nl @ ''Total bytes: 7'' @ nl @ nl @ ''sha256  bytes  path'' @ nl @
              ''sha:old  3  tools/env/uname.txt'' @ nl @ ''sha:a: b  4  tools/run.yaml'' @ nl)
   \<and> read_file (snd (main E0 (args0\<lparr>runs := Some [''tools''], env_snapshot := True\<rparr>) tools_fs))
        [''work'', ''stage'', ''tools'', ''env'', ''uname.txt'']
       = Inr (''$ uname -a'' @ nl)
   \<and> read_file tools_fs [''work'', ''tools'', ''env'', ''uname.txt''] = Inr ''old''"
  using tools_run_evaluated by (simp only: case_prod_unfold)

end
